theory Spec2Isabelle
  imports Complex_Main
begin

section \<open>Text, numbers and exceptions\<close>

text \<open>
  The scraper of \<^verbatim>\<open>script.py\<close> works on Python \<^verbatim>\<open>str\<close> values: sequences of Unicode
  code points, modelled as lists of natural numbers. The texts the program itself
  writes (selectors, labels, addresses) are ASCII and are given by \<open>ascii\<close>.

  The character classes of the interpreter are written out on ASCII; their members
  beyond ASCII are entries of the Unicode tables, which are not part of the program and
  are parameters of the model: the decimal digits (category Nd, matched by \<^verbatim>\<open>\d\<close> and
  read by \<^verbatim>\<open>int\<close> and \<^verbatim>\<open>float\<close>) with their values, the other characters for which
  \<^verbatim>\<open>str.isdigit\<close> holds (such as superscript digits), the whitespace (of \<^verbatim>\<open>\s\<close> and
  \<^verbatim>\<open>str.strip\<close>), the lowering of a text that is not ASCII, and the interpreter's limit
  on the number of digits \<^verbatim>\<open>int\<close> converts (4300 unless configured; 0 for no limit).
\<close>

type_synonym pystr = "nat list"

definition ascii :: "string \<Rightarrow> pystr" where
  "ascii s = map of_char s"

datatype exn = ValueError

record pylib =
  nd :: "nat \<Rightarrow> bool"
  nd_value :: "nat \<Rightarrow> nat"
  other_digit :: "nat \<Rightarrow> bool"
  space :: "nat \<Rightarrow> bool"
  lower_text :: "pystr \<Rightarrow> pystr"
  max_str_digits :: nat

definition comma :: nat where
  "comma = 44"

definition dot :: nat where
  "dot = 46"

text \<open>\<^verbatim>\<open>\d\<close>, and the digits \<^verbatim>\<open>int\<close> and \<^verbatim>\<open>float\<close> read\<close>

definition is_decimal :: "pylib \<Rightarrow> nat \<Rightarrow> bool" where
  "is_decimal U c = (if c < 128 then 48 \<le> c \<and> c \<le> 57 else nd U c)"

definition digit_val :: "pylib \<Rightarrow> nat \<Rightarrow> nat" where
  "digit_val U c = (if c < 128 then c - 48 else nd_value U c)"

text \<open>\<^verbatim>\<open>char.isdigit()\<close>: the decimal digits and the other digits\<close>

definition isdigit :: "pylib \<Rightarrow> nat \<Rightarrow> bool" where
  "isdigit U c = (is_decimal U c \<or> (128 \<le> c \<and> other_digit U c))"

text \<open>The whitespace of \<^verbatim>\<open>\s\<close> and \<^verbatim>\<open>str.strip()\<close>\<close>

definition is_space :: "pylib \<Rightarrow> nat \<Rightarrow> bool" where
  "is_space U c =
     (if c < 128 then c \<in> {9, 10, 11, 12, 13, 28, 29, 30, 31, 32} else space U c)"

text \<open>The value of a run of decimal digits, most significant digit first.\<close>

definition dec :: "pylib \<Rightarrow> pystr \<Rightarrow> nat" where
  "dec U ds = foldl (\<lambda>n c. 10 * n + digit_val U c) 0 ds"

text \<open>\<^verbatim>\<open>text.replace(',', '')\<close>\<close>

definition remove_commas :: "pystr \<Rightarrow> pystr" where
  "remove_commas s = filter (\<lambda>c. c \<noteq> comma) s"

subsection \<open>Floating-point numbers\<close>

text \<open>
  A Python float that the scraper can produce is a non-negative double or \<^verbatim>\<open>inf\<close>.
  \<^verbatim>\<open>float\<close> of a decimal text is the double nearest to the number the text denotes,
  a tie going to the even significand (53 bits, the unit never below that of the
  subnormal numbers), and \<^verbatim>\<open>inf\<close> where that is beyond the largest double.
\<close>

datatype pyfloat = Finite real | Infinity

definition pow2 :: "int \<Rightarrow> real" where
  "pow2 q = (if 0 \<le> q then 2 ^ nat q else 1 / 2 ^ nat (- q))"

definition round_half_even :: "real \<Rightarrow> int" where
  "round_half_even z =
     (let f = \<lfloor>z\<rfloor>; r = z - of_int f in
      if r < 1 / 2 then f else if 1 / 2 < r then f + 1 else if even f then f else f + 1)"

definition binade :: "real \<Rightarrow> int" where
  "binade x = \<lfloor>log 2 x\<rfloor>"

definition to_double :: "real \<Rightarrow> pyfloat" where
  "to_double x =
     (if x \<le> 0 then Finite 0
      else let q = max (binade x - 52) (- 1074);
               y = of_int (round_half_even (x / pow2 q)) * pow2 q
           in if 2 ^ 1024 \<le> y then Infinity else Finite y)"

text \<open>
  \<^verbatim>\<open>float(s)\<close> on the texts the regular expressions below can yield: a run of decimal
  digits, optionally followed by a dot and a run of decimal digits, not both runs
  empty. Every other text over digits, commas and dots raises \<^verbatim>\<open>ValueError\<close>.
\<close>

definition py_float :: "pylib \<Rightarrow> pystr \<Rightarrow> exn + pyfloat" where
  "py_float U s =
     (let ip = takeWhile (is_decimal U) s; r = dropWhile (is_decimal U) s in
      case r of
        [] \<Rightarrow> (if ip = [] then Inl ValueError else Inr (to_double (real (dec U ip))))
      | d # fs \<Rightarrow>
          (if d = dot \<and> list_all (is_decimal U) fs \<and> (ip \<noteq> [] \<or> fs \<noteq> [])
           then Inr (to_double (real (dec U ip) + real (dec U fs) / 10 ^ length fs))
           else Inl ValueError))"

text \<open>
  \<^verbatim>\<open>int(s)\<close> on texts over digits and commas: a run of decimal digits no longer than
  the interpreter's limit, where there is one.
\<close>

definition py_int :: "pylib \<Rightarrow> pystr \<Rightarrow> exn + int" where
  "py_int U s =
     (if s \<noteq> [] \<and> list_all (is_decimal U) s
         \<and> (max_str_digits U = 0 \<or> length s \<le> max_str_digits U)
      then Inr (int (dec U s)) else Inl ValueError)"

section \<open>Regular-expression searches\<close>

text \<open>
  \<^verbatim>\<open>re.search\<close> returns the match at the leftmost position where the pattern matches.
  All three patterns start with a greedy character class repeated at least once, so the
  leftmost position is the first character of the class, and the greedy run is the
  longest one; the optional parts that follow never make the match fail.
\<close>

definition digit_or_comma :: "pylib \<Rightarrow> nat \<Rightarrow> bool" where
  "digit_or_comma U c = (is_decimal U c \<or> c = comma)"

text \<open>The pattern \<^verbatim>\<open>[\d,]+(?:\.\d{2})?\<close> matched at the start of a text.\<close>

definition match_price :: "pylib \<Rightarrow> pystr \<Rightarrow> pystr" where
  "match_price U s =
     (let m = takeWhile (digit_or_comma U) s in
      case dropWhile (digit_or_comma U) s of
        d # a # b # _ \<Rightarrow>
          (if d = dot \<and> is_decimal U a \<and> is_decimal U b then m @ [d, a, b] else m)
      | _ \<Rightarrow> m)"

fun search_price :: "pylib \<Rightarrow> pystr \<Rightarrow> pystr option" where
  "search_price U [] = None"
| "search_price U (c # cs) =
     (if digit_or_comma U c then Some (match_price U (c # cs)) else search_price U cs)"

text \<open>The pattern \<^verbatim>\<open>(\d+\.?\d*)\<close> matched at the start of a text.\<close>

definition match_rating :: "pylib \<Rightarrow> pystr \<Rightarrow> pystr" where
  "match_rating U s =
     (let m = takeWhile (is_decimal U) s in
      case dropWhile (is_decimal U) s of
        d # r \<Rightarrow> (if d = dot then m @ [d] @ takeWhile (is_decimal U) r else m)
      | [] \<Rightarrow> m)"

fun search_rating :: "pylib \<Rightarrow> pystr \<Rightarrow> pystr option" where
  "search_rating U [] = None"
| "search_rating U (c # cs) =
     (if is_decimal U c then Some (match_rating U (c # cs)) else search_rating U cs)"

text \<open>The pattern \<^verbatim>\<open>([\d,]+)\<close>.\<close>

fun search_review :: "pylib \<Rightarrow> pystr \<Rightarrow> pystr option" where
  "search_review U [] = None"
| "search_review U (c # cs) =
     (if digit_or_comma U c then Some (takeWhile (digit_or_comma U) (c # cs))
      else search_review U cs)"

section \<open>The field extractors\<close>

text \<open>
  Each extractor returns \<open>Inr None\<close> for Python's \<^verbatim>\<open>None\<close>, \<open>Inr (Some v)\<close> for a value,
  and \<open>Inl e\<close> where the conversion \<^verbatim>\<open>float\<close> or \<^verbatim>\<open>int\<close> raises.
\<close>

definition extract_price :: "pylib \<Rightarrow> pystr \<Rightarrow> exn + pyfloat option" where
  "extract_price U price_text =
     (if price_text = [] then Inr None
      else case search_price U (remove_commas price_text) of
             Some m \<Rightarrow> map_sum id Some (py_float U (remove_commas m))
           | None \<Rightarrow> Inr None)"

definition extract_rating :: "pylib \<Rightarrow> pystr \<Rightarrow> exn + pyfloat option" where
  "extract_rating U rating_text =
     (if rating_text = [] then Inr None
      else case search_rating U rating_text of
             Some m \<Rightarrow> map_sum id Some (py_float U m)
           | None \<Rightarrow> Inr None)"

definition extract_review_count :: "pylib \<Rightarrow> pystr \<Rightarrow> exn + int option" where
  "extract_review_count U review_text =
     (if review_text = [] then Inr None
      else case search_review U (remove_commas review_text) of
             Some m \<Rightarrow> map_sum id Some (py_int U (remove_commas m))
           | None \<Rightarrow> Inr None)"

section \<open>Categories of the analytics dataset\<close>

text \<open>
  \<^verbatim>\<open>pd.isna(price)\<close> holds for a missing price (\<^verbatim>\<open>None\<close>, and \<^verbatim>\<open>NaN\<close> after
  \<^verbatim>\<open>pd.to_numeric\<close>): \<open>None\<close> here. \<^verbatim>\<open>inf\<close> is below no bound. The labels are the
  source's, with the rupee sign U+20B9.
\<close>

definition rupee :: nat where
  "rupee = 8377"

definition below :: "pyfloat \<Rightarrow> real \<Rightarrow> bool" where
  "below x t = (case x of Finite y \<Rightarrow> y < t | Infinity \<Rightarrow> False)"


definition categorize_price :: "pyfloat option \<Rightarrow> pystr" where
  "categorize_price price =
     (case price of
        None \<Rightarrow> ascii ''No Price Listed''
      | Some p \<Rightarrow>
          if below p 500 then ascii ''Under '' @ [rupee] @ ascii ''500''
          else if below p 1000 then [rupee] @ ascii ''500 - '' @ [rupee] @ ascii ''1,000''
          else if below p 2000 then [rupee] @ ascii ''1,000 - '' @ [rupee] @ ascii ''2,000''
          else if below p 5000 then [rupee] @ ascii ''2,000 - '' @ [rupee] @ ascii ''5,000''
          else ascii ''Above '' @ [rupee] @ ascii ''5,000'')"



section \<open>Page elements\<close>

text \<open>
  A tag of the parsed page offers its text and its attributes; a product container is
  taken as its \<^verbatim>\<open>select_one\<close>: the first element a CSS selector finds in it, if any.
  A parsed page is taken as its \<^verbatim>\<open>select\<close>: the containers a selector finds, in
  document order. A tag is always truthy in Python, so \<^verbatim>\<open>if element:\<close> asks whether
  \<^verbatim>\<open>select_one\<close> found one.
\<close>

record element =
  get_text :: pystr
  attrs :: "(pystr \<times> pystr) list"

type_synonym container = "string \<Rightarrow> element option"

type_synonym soup = "string \<Rightarrow> container list"

text \<open>\<^verbatim>\<open>element.get(key, default)\<close>\<close>

definition attr_get :: "element \<Rightarrow> pystr \<Rightarrow> pystr \<Rightarrow> pystr" where
  "attr_get e k dflt = (case map_of (attrs e) k of Some v \<Rightarrow> v | None \<Rightarrow> dflt)"

text \<open>\<^verbatim>\<open>text.strip()\<close> and \<^verbatim>\<open>re.sub(r'\s+', ' ', text)\<close>\<close>

definition strip :: "pylib \<Rightarrow> pystr \<Rightarrow> pystr" where
  "strip U s = rev (dropWhile (is_space U) (rev (dropWhile (is_space U) s)))"

function collapse_spaces :: "pylib \<Rightarrow> pystr \<Rightarrow> pystr" where
  "collapse_spaces U [] = []"
| "collapse_spaces U (c # cs) =
     (if is_space U c then 32 # collapse_spaces U (dropWhile (is_space U) cs)
      else c # collapse_spaces U cs)"
  by pat_completeness auto
termination
  by (relation "measure (\<lambda>(U, s). length s)")
     (auto simp: length_dropWhile_le less_Suc_eq_le)

definition clean_text :: "pylib \<Rightarrow> pystr \<Rightarrow> pystr" where
  "clean_text U s = (if s = [] then [] else collapse_spaces U (strip U s))"

text \<open>
  \<^verbatim>\<open>text.lower()\<close>, written out for an ASCII text and the library's otherwise, and
  \<^verbatim>\<open>needle in text\<close>
\<close>

definition lower_char :: "nat \<Rightarrow> nat" where
  "lower_char c = (if 65 \<le> c \<and> c \<le> 90 then c + 32 else c)"

definition lower :: "pylib \<Rightarrow> pystr \<Rightarrow> pystr" where
  "lower U s = (if list_all (\<lambda>c. c < 128) s then map lower_char s else lower_text U s)"

fun contains :: "pystr \<Rightarrow> pystr \<Rightarrow> bool" where
  "contains needle [] = (needle = [])"
| "contains needle (c # cs) =
     (take (length needle) (c # cs) = needle \<or> contains needle cs)"

section \<open>Extraction of one product\<close>

record product =
  Product_Name :: pystr
  Product_URL :: pystr
  Price :: "pyfloat option"
  Rating :: "pyfloat option"
  Number_of_Reviews :: "int option"

definition base_url :: pystr where
  "base_url = ascii ''https://www.amazon.in''"

definition name_selectors :: "string list" where
  \<open>name_selectors =
     [''h2 a span'', ''h2 span'', ''[data-cy="title-recipe-title"] span'',
      ''.a-size-mini span'', ''.a-size-base-plus'', ''.s-size-mini span'',
      ''h2.a-size-mini span'']\<close>

definition price_selectors :: "string list" where
  \<open>price_selectors =
     [''.a-price-whole'', ''.a-offscreen'', ''.a-price .a-offscreen'',
      ''[data-a-color="price"] .a-offscreen'', ''.a-price-symbol + .a-price-whole'']\<close>

definition rating_selectors :: "string list" where
  \<open>rating_selectors =
     [''.a-icon-alt'', ''[aria-label*="stars"]'', ''[aria-label*="rating"]'',
      ''.a-star-small .a-icon-alt'']\<close>

definition review_selectors :: "string list" where
  \<open>review_selectors =
     [''a[href*="#customerReviews"]'', ''[aria-label*="review"]'', ''span.a-size-base'',
      ''a.a-link-normal'']\<close>

text \<open>
  The loop \<^verbatim>\<open>for selector in selectors: el = select_one(selector); if el: break\<close>:
  the element of the first selector that finds one.
\<close>

fun select_first :: "container \<Rightarrow> string list \<Rightarrow> element option" where
  "select_first product_element [] = None"
| "select_first product_element (selector # rest) =
     (case product_element selector of
        Some e \<Rightarrow> Some e
      | None \<Rightarrow> select_first product_element rest)"

text \<open>
  The test of a review candidate:
  \<^verbatim>\<open>'review' in review_text.lower() or any(char.isdigit() for char in review_text)\<close>
\<close>

definition review_valid :: "pylib \<Rightarrow> pystr \<Rightarrow> bool" where
  "review_valid U review_text =
     (contains (ascii ''review'') (lower U review_text) \<or> list_ex (isdigit U) review_text)"

text \<open>
  The review loop. Its \<^verbatim>\<open>else\<close> belongs to \<^verbatim>\<open>if review_element:\<close>, so an element that
  was found and not accepted stays in \<^verbatim>\<open>review_element\<close> while the loop goes on; the
  third argument is the value of \<^verbatim>\<open>review_element\<close> so far.
\<close>

fun review_loop ::
  "pylib \<Rightarrow> container \<Rightarrow> string list \<Rightarrow> element option \<Rightarrow> element option" where
  "review_loop U product_element [] review_element = review_element"
| "review_loop U product_element (selector # rest) review_element =
     (case product_element selector of
        Some e \<Rightarrow>
          (if review_valid U (get_text e) then Some e
           else review_loop U product_element rest (Some e))
      | None \<Rightarrow> review_loop U product_element rest None)"

text \<open>The text the rating is read from: the accessible label where it is not empty.\<close>

definition rating_text :: "element \<Rightarrow> pystr" where
  "rating_text rating_element =
     (let label = attr_get rating_element (ascii ''aria-label'') [] in
      if label \<noteq> [] then label else get_text rating_element)"

definition scrape_price :: "pylib \<Rightarrow> container \<Rightarrow> exn + pyfloat option" where
  "scrape_price U product_element =
     (case select_first product_element price_selectors of
        Some price_element \<Rightarrow> extract_price U (get_text price_element)
      | None \<Rightarrow> Inr None)"

definition scrape_rating :: "pylib \<Rightarrow> container \<Rightarrow> exn + pyfloat option" where
  "scrape_rating U product_element =
     (case select_first product_element rating_selectors of
        Some rating_element \<Rightarrow> extract_rating U (rating_text rating_element)
      | None \<Rightarrow> Inr None)"

definition scrape_reviews :: "pylib \<Rightarrow> container \<Rightarrow> exn + int option" where
  "scrape_reviews U product_element =
     (case review_loop U product_element review_selectors None of
        Some review_element \<Rightarrow> extract_review_count U (get_text review_element)
      | None \<Rightarrow> Inr None)"

definition scrape_url :: "(pystr \<Rightarrow> pystr \<Rightarrow> exn + pystr) \<Rightarrow> container \<Rightarrow> exn + pystr" where
  \<open>scrape_url urljoin product_element =
     (case (case product_element ''h2 a'' of
              Some e \<Rightarrow> Some e
            | None \<Rightarrow> product_element ''a[href*="/dp/"]'') of
        Some link_element \<Rightarrow> urljoin base_url (attr_get link_element (ascii ''href'') [])
      | None \<Rightarrow> Inr [])\<close>

definition scrape_name :: "pylib \<Rightarrow> container \<Rightarrow> pystr" where
  "scrape_name U product_element =
     (case select_first product_element name_selectors of
        Some name_element \<Rightarrow> clean_text U (get_text name_element)
      | None \<Rightarrow> [])"

text \<open>
  \<^verbatim>\<open>scrape_product_details\<close>: the body runs under \<^verbatim>\<open>try\<close>, and any exception makes the
  result \<^verbatim>\<open>None\<close>: here where \<^verbatim>\<open>float\<close>, \<^verbatim>\<open>int\<close> or \<^verbatim>\<open>urljoin\<close> raises. \<^verbatim>\<open>urljoin\<close> of the
  standard library is a parameter; it raises \<^verbatim>\<open>ValueError\<close> on some malformed
  references.
\<close>

definition scrape_product_details ::
  "pylib \<Rightarrow> (pystr \<Rightarrow> pystr \<Rightarrow> exn + pystr) \<Rightarrow> container \<Rightarrow> product option" where
  "scrape_product_details U urljoin product_element =
     (case scrape_url urljoin product_element of
        Inl e \<Rightarrow> None
      | Inr product_url \<Rightarrow>
     (case scrape_price U product_element of
        Inl e \<Rightarrow> None
      | Inr price \<Rightarrow>
     (case scrape_rating U product_element of
        Inl e \<Rightarrow> None
      | Inr rating \<Rightarrow>
     (case scrape_reviews U product_element of
        Inl e \<Rightarrow> None
      | Inr reviews \<Rightarrow>
          Some \<lparr>Product_Name = scrape_name U product_element,
                Product_URL = product_url,
                Price = price,
                Rating = rating,
                Number_of_Reviews = reviews\<rparr>))))"

section \<open>The request client\<close>

text \<open>
  What lies outside the program is a parameter: the answer of the network to the
  \<open>n\<close>-th request of the session (a response, or a \<^verbatim>\<open>requests.RequestException\<close>),
  the \<open>n\<close>-th number \<^verbatim>\<open>random.random()\<close> draws (in \<open>[0, 1)\<close>), \<^verbatim>\<open>urljoin\<close>, and the
  tables of the interpreter. The address of a request is an ASCII text the program
  builds.
  The body of a response is taken as the parsed page, \<open>None\<close> where
  \<^verbatim>\<open>BeautifulSoup\<close> rejects the markup.
\<close>

record response =
  status_code :: int
  content :: "soup option"

datatype get_result = Response response | RequestException

record env =
  http_get :: "string \<Rightarrow> nat \<Rightarrow> get_result"
  random :: "nat \<Rightarrow> real"
  urljoin :: "pystr \<Rightarrow> pystr \<Rightarrow> exn + pystr"
  lib :: pylib

text \<open>
  The effects of a run, in the order they happen: the sleeps, the requests, and the
  verdict the loop logs for each page (\<^verbatim>\<open>Found ... products on page\<close> or one of its
  three failure messages).
\<close>

datatype event = Sleep real | Get string | PageFound int | PageFailed int

text \<open>
  The scraper object with the part of the world it drives: its accumulator
  \<^verbatim>\<open>self.products_data\<close>, the number of requests sent and of random numbers drawn, and
  the effects so far.
\<close>

record scraper =
  products_data :: "product list"
  gets :: nat
  draws :: nat
  trace :: "event list"

text \<open>\<^verbatim>\<open>__init__\<close>\<close>

definition init :: scraper where
  "init = \<lparr>products_data = [], gets = 0, draws = 0, trace = []\<rparr>"

definition emit :: "event \<Rightarrow> scraper \<Rightarrow> scraper" where
  "emit ev s = s\<lparr>trace := trace s @ [ev]\<rparr>"

text \<open>\<^verbatim>\<open>time.sleep(d)\<close>\<close>

definition sleep :: "real \<Rightarrow> scraper \<Rightarrow> scraper" where
  "sleep d s = emit (Sleep d) s"

text \<open>\<^verbatim>\<open>random.uniform(a, b)\<close>, which is \<^verbatim>\<open>a + (b - a) * random()\<close>\<close>

definition uniform :: "env \<Rightarrow> real \<Rightarrow> real \<Rightarrow> scraper \<Rightarrow> real \<times> scraper" where
  "uniform E a b s = (a + (b - a) * random E (draws s), s\<lparr>draws := Suc (draws s)\<rparr>)"

definition get_random_delay :: "env \<Rightarrow> scraper \<Rightarrow> real \<times> scraper" where
  "get_random_delay E s = uniform E 2 5 s"

text \<open>\<^verbatim>\<open>self.session.get(url, timeout=15)\<close>\<close>

definition session_get :: "env \<Rightarrow> string \<Rightarrow> scraper \<Rightarrow> get_result \<times> scraper" where
  "session_get E url s = (http_get E url (gets s), emit (Get url) (s\<lparr>gets := Suc (gets s)\<rparr>))"

text \<open>
  One pass of the body of \<^verbatim>\<open>for attempt in range(max_retries)\<close>: \<open>Some response\<close> where
  the body returns, \<open>None\<close> where the loop goes on.
\<close>

definition attempt_once ::
  "env \<Rightarrow> string \<Rightarrow> nat \<Rightarrow> nat \<Rightarrow> scraper \<Rightarrow> response option \<times> scraper" where
  "attempt_once E url max_retries attempt s =
     (case get_random_delay E s of (delay, s1) \<Rightarrow>
      case session_get E url (sleep delay s1) of (r, s2) \<Rightarrow>
      (case r of
         Response resp \<Rightarrow>
           if status_code resp = 200 then (Some resp, s2)
           else if status_code resp = 503 then
             (case uniform E 1 3 s2 of (u, s3) \<Rightarrow> (None, sleep (2 ^ attempt + u) s3))
           else (None, sleep (2 ^ attempt) s2)
       | RequestException \<Rightarrow>
           if int attempt < int max_retries - 1 then (None, sleep (2 ^ attempt) s2)
           else (None, s2)))"

fun retry_loop ::
  "env \<Rightarrow> string \<Rightarrow> nat \<Rightarrow> nat list \<Rightarrow> scraper \<Rightarrow> response option \<times> scraper" where
  "retry_loop E url max_retries [] s = (None, s)"
| "retry_loop E url max_retries (attempt # rest) s =
     (case attempt_once E url max_retries attempt s of
        (Some resp, s') \<Rightarrow> (Some resp, s')
      | (None, s') \<Rightarrow> retry_loop E url max_retries rest s')"

definition make_request_with_retry ::
  "env \<Rightarrow> string \<Rightarrow> nat \<Rightarrow> scraper \<Rightarrow> response option \<times> scraper" where
  "make_request_with_retry E url max_retries s =
     retry_loop E url max_retries [0..<max_retries] s"

section \<open>The pagination loop\<close>

definition digit_char :: "nat \<Rightarrow> char" where
  "digit_char n = ''0123456789'' ! n"

function str_nat :: "nat \<Rightarrow> string" where
  "str_nat n = (if n < 10 then [digit_char n] else str_nat (n div 10) @ [digit_char (n mod 10)])"
  by pat_completeness auto
termination
  by (relation "measure id") auto

definition str_int :: "int \<Rightarrow> string" where
  "str_int i = (if i < 0 then CHR ''-'' # str_nat (nat (- i)) else str_nat (nat i))"

definition base_search_url :: string where
  "base_search_url = ''https://www.amazon.in/s''"

definition page_url :: "int \<Rightarrow> string" where
  "page_url page_num =
     (if page_num = 1 then base_search_url @ ''?k=toys+and+gifts&ref=sr_pg_1''
      else base_search_url @ ''?k=toys+and+gifts&page='' @ str_int page_num
             @ ''&ref=sr_pg_'' @ str_int page_num)"

definition product_selectors :: "string list" where
  \<open>product_selectors =
     [''[data-component-type="s-search-result"]'', ''.s-result-item[data-asin]'',
      ''[data-asin]:not([data-asin=""])'', ''.s-widget-container .s-result-item'']\<close>

text \<open>The containers of the first selector that finds any.\<close>

fun select_containers :: "soup \<Rightarrow> string list \<Rightarrow> container list" where
  "select_containers page [] = []"
| "select_containers page (selector # rest) =
     (if page selector \<noteq> [] then page selector else select_containers page rest)"

text \<open>The local variables of \<^verbatim>\<open>scrape_toys_category\<close> together with the scraper.\<close>

record run =
  page_num :: int
  products_scraped :: int
  consecutive_failures :: int
  self :: scraper

text \<open>
  The loop over the containers of one page. A record is appended when
  \<^verbatim>\<open>product_data and product_data.get('Product_Name')\<close> holds: the extraction returned a
  record and its name is not the empty text.
\<close>

fun process_containers :: "env \<Rightarrow> int \<Rightarrow> container list \<Rightarrow> run \<Rightarrow> run" where
  "process_containers E max_products [] L = L"
| "process_containers E max_products (container # rest) L =
     (if products_scraped L \<ge> max_products then L
      else case scrape_product_details (lib E) (urljoin E) container of
             Some product_data \<Rightarrow>
               if Product_Name product_data \<noteq> [] then
                 process_containers E max_products rest
                   (L\<lparr>self := (self L)\<lparr>products_data := products_data (self L) @ [product_data]\<rparr>,
                      products_scraped := products_scraped L + 1\<rparr>)
               else process_containers E max_products rest L
           | None \<Rightarrow> process_containers E max_products rest L)"

text \<open>What every failure path of the loop body does.\<close>

definition page_failed :: "run \<Rightarrow> run" where
  "page_failed L =
     L\<lparr>self := emit (PageFailed (page_num L)) (self L),
       consecutive_failures := consecutive_failures L + 1,
       page_num := page_num L + 1\<rparr>"

text \<open>
  The body of the \<^verbatim>\<open>while\<close> loop. The request failed, no selector found a container,
  or the parser raised: a failure. Otherwise the failure counter is reset and the
  containers are processed. The debug file written where no container is found is not
  modelled; where its write raises, the handler of the loop does what the branch would
  have done.
\<close>

definition page_body :: "env \<Rightarrow> int \<Rightarrow> run \<Rightarrow> run" where
  "page_body E max_products L =
     (case make_request_with_retry E (page_url (page_num L)) 3 (self L) of
        (None, s) \<Rightarrow> page_failed (L\<lparr>self := s\<rparr>)
      | (Some resp, s) \<Rightarrow>
          (case content resp of
             None \<Rightarrow> page_failed (L\<lparr>self := s\<rparr>)
           | Some page \<Rightarrow>
               (let product_containers = select_containers page product_selectors in
                if product_containers = [] then page_failed (L\<lparr>self := s\<rparr>)
                else
                  (let L1 = process_containers E max_products product_containers
                              (L\<lparr>self := emit (PageFound (page_num L)) s,
                                 consecutive_failures := 0\<rparr>)
                   in L1\<lparr>page_num := page_num L1 + 1\<rparr>))))"

definition loop_cond :: "int \<Rightarrow> int \<Rightarrow> run \<Rightarrow> bool" where
  "loop_cond max_pages max_products L =
     (page_num L \<le> max_pages \<and> products_scraped L < max_products
      \<and> consecutive_failures L < 3)"

function scrape_loop :: "env \<Rightarrow> int \<Rightarrow> int \<Rightarrow> run \<Rightarrow> run" where
  "scrape_loop E max_pages max_products L =
     (if loop_cond max_pages max_products L
      then scrape_loop E max_pages max_products (page_body E max_products L)
      else L)"
  by pat_completeness auto
termination
proof (relation "measure (\<lambda>(E, max_pages, max_products, L). nat (max_pages + 1 - page_num L))")
  show "wf (measure (\<lambda>(E, max_pages, max_products, L). nat (max_pages + 1 - page_num L)))"
    by simp
next
  fix E :: env and max_pages max_products :: int and L :: run
  assume c: "loop_cond max_pages max_products L"
  have pc: "page_num (process_containers E max_products cs K) = page_num K" for cs K
    by (induction cs arbitrary: K) (simp_all split: option.splits)
  have "page_num (page_body E max_products L) = page_num L + 1"
    by (simp add: page_body_def page_failed_def Let_def pc split: prod.splits option.splits)
  with c show "((E, max_pages, max_products, page_body E max_products L),
                (E, max_pages, max_products, L))
               \<in> measure (\<lambda>(E, max_pages, max_products, L). nat (max_pages + 1 - page_num L))"
    by (simp add: loop_cond_def)
qed

declare scrape_loop.simps [simp del]

text \<open>
  \<^verbatim>\<open>scrape_toys_category\<close> returns \<^verbatim>\<open>self.products_data\<close>; the result is that list
  together with the scraper after the run.
\<close>

definition scrape_toys_category ::
  "env \<Rightarrow> int \<Rightarrow> int \<Rightarrow> scraper \<Rightarrow> product list \<times> scraper" where
  "scrape_toys_category E max_pages max_products s =
     (let L = scrape_loop E max_pages max_products
                \<lparr>page_num = 1, products_scraped = 0, consecutive_failures = 0, self = s\<rparr>
      in (products_data (self L), self L))"

section \<open>The analytics dataset\<close>

text \<open>
  \<^verbatim>\<open>create_powerbi_dataset\<close> builds a data frame column by column from
  \<^verbatim>\<open>self.products_data\<close>; a frame is modelled as its columns, the empty frame as
  empty columns. \<^verbatim>\<open>pd.to_numeric(..., errors='coerce')\<close> keeps a number and turns a
  missing value into \<^verbatim>\<open>NaN\<close> (\<open>None\<close> here). Names and addresses are never missing, so
  their \<^verbatim>\<open>fillna\<close> changes nothing.

  How the frame holds the review counts is the doing of pandas and numpy. Where a count
  is missing, the column is of 64-bit floats: every count becomes the nearest double,
  and \<^verbatim>\<open>.fillna(0).astype(int)\<close> casts the doubles to 64-bit integers, a missing count as
  0. Where no count is missing, the column is of 64-bit integers and stays as it is.
  This is written out for counts from 0 below \<open>2 ^ 63\<close>, the integral part of a double
  being taken where it fits 64 bits; what the cast yields otherwise, and what becomes
  of a column with a count outside that range, is a parameter.
\<close>

record pandas =
  wild_cast :: "pyfloat \<Rightarrow> int"
  wide_counts :: "int option list \<Rightarrow> int list"

definition in_int64 :: "int \<Rightarrow> bool" where
  "in_int64 n = (0 \<le> n \<and> n < 2 ^ 63)"

definition astype_int :: "pandas \<Rightarrow> pyfloat \<Rightarrow> int" where
  "astype_int P x =
     (case x of
        Finite y \<Rightarrow> if in_int64 \<lfloor>y\<rfloor> then \<lfloor>y\<rfloor> else wild_cast P x
      | Infinity \<Rightarrow> wild_cast P x)"

definition fillna :: "'a \<Rightarrow> 'a option \<Rightarrow> 'a" where
  "fillna d v = (case v of None \<Rightarrow> d | Some x \<Rightarrow> x)"


text \<open>\<^verbatim>\<open>pd.to_numeric(df['Number_of_Reviews'], errors='coerce').fillna(0).astype(int)\<close>\<close>

definition review_counts :: "pandas \<Rightarrow> int option list \<Rightarrow> int list" where
  "review_counts P col =
     (if list_all (\<lambda>v. case v of None \<Rightarrow> True | Some n \<Rightarrow> in_int64 n) col
      then if list_ex (\<lambda>v. v = None) col
           then map (\<lambda>v. case v of
                            None \<Rightarrow> 0
                          | Some n \<Rightarrow> astype_int P (to_double (real_of_int n))) col
           else map (fillna 0) col
      else wide_counts P col)"








section \<open>Reference definitions and sample inputs\<close>

text \<open>
  The review count in the specification's words: the first run of decimal digits of
  the text, its separators stripped, read as an integer; nothing where the text has no
  decimal digit.
\<close>

definition digit_sequence :: "pylib \<Rightarrow> pystr \<Rightarrow> int option" where
  "digit_sequence U t =
     (let u = dropWhile (\<lambda>c. \<not> is_decimal U c) (remove_commas t) in
      if u = [] then None else Some (int (dec U (takeWhile (is_decimal U) u))))"

text \<open>
  The length of that run, which \<^verbatim>\<open>int\<close> refuses beyond the interpreter's limit.
\<close>

definition digit_run_length :: "pylib \<Rightarrow> pystr \<Rightarrow> nat" where
  "digit_run_length U t =
     length (takeWhile (is_decimal U) (dropWhile (\<lambda>c. \<not> is_decimal U c) (remove_commas t)))"

text \<open>
  The rating in the specification's words: the first decimal number of the text, that
  is its first run of decimal digits with, where a dot follows, the dot and the digits
  behind it; as a float.
\<close>

definition first_number :: "pylib \<Rightarrow> pystr \<Rightarrow> pyfloat option" where
  "first_number U t =
     (let u = dropWhile (\<lambda>c. \<not> is_decimal U c) t in
      if u = [] then None
      else
        let whole = real (dec U (takeWhile (is_decimal U) u)) in
        case dropWhile (is_decimal U) u of
          [] \<Rightarrow> Some (to_double whole)
        | d # r \<Rightarrow>
            if d = dot
            then let fs = takeWhile (is_decimal U) r in
                 Some (to_double (whole + real (dec U fs) / 10 ^ length fs))
            else Some (to_double whole))"

text \<open>The floats that are not negative.\<close>

definition nonneg :: "pyfloat \<Rightarrow> bool" where
  "nonneg x = (case x of Finite y \<Rightarrow> 0 \<le> y | Infinity \<Rightarrow> True)"


text \<open>
  Sample tables: of the characters beyond ASCII, the Arabic-Indic digits (U+0660 to
  U+0669) are decimal digits, superscript two (U+00B2) is a digit that is not decimal,
  and the no-break space (U+00A0) is whitespace; a text that is not ASCII is lowered to
  itself. Sample conversions of pandas.
\<close>

definition sample_lib :: pylib where
  "sample_lib =
     \<lparr>nd = (\<lambda>c. 1632 \<le> c \<and> c \<le> 1641),
      nd_value = (\<lambda>c. c - 1632),
      other_digit = (\<lambda>c. c = 178),
      space = (\<lambda>c. c = 160),
      lower_text = (\<lambda>s. s),
      max_str_digits = 4300\<rparr>"


text \<open>A container given by the elements its selectors find.\<close>

definition container_of :: "(string \<times> element) list \<Rightarrow> container" where
  "container_of found = map_of found"

definition tag :: "pystr \<Rightarrow> (pystr \<times> pystr) list \<Rightarrow> element" where
  "tag t as = \<lparr>get_text = t, attrs = as\<rparr>"

text \<open>A stand-in for \<^verbatim>\<open>urljoin\<close> on the references of the samples.\<close>

definition plain_urljoin :: "pystr \<Rightarrow> pystr \<Rightarrow> exn + pystr" where
  "plain_urljoin base ref = Inr (base @ ref)"

text \<open>
  A product whose only rating element is the link to its ratings, labelled with their
  number; and one with the usual star label.
\<close>

definition rated_container :: container where
  \<open>rated_container =
     container_of
       [(''h2 a span'', tag (ascii ''Toy Car'') []),
        (''[aria-label*="rating"]'', tag [] [(ascii ''aria-label'', ascii ''12 ratings'')])]\<close>

definition starred_container :: container where
  \<open>starred_container =
     container_of
       [(''h2 a span'', tag (ascii ''Toy Car'') []),
        (''.a-icon-alt'', tag (ascii ''4.5 out of 5 stars'') [])]\<close>

text \<open>
  Products for the review count. One whose first candidate is a button and whose
  second is the count; one whose only candidate, found by the last selector, is a
  button; one whose first candidate names the reviews in capitals, before the count;
  and one whose first candidate holds a superscript two, before the count.
\<close>

definition counted_container :: container where
  \<open>counted_container =
     container_of
       [(''h2 a span'', tag (ascii ''Toy Car'') []),
        (''span.a-size-base'', tag (ascii ''See options'') []),
        (''a.a-link-normal'', tag (ascii ''1,234 ratings'') [])]\<close>

definition button_container :: container where
  \<open>button_container =
     container_of
       [(''h2 a span'', tag (ascii ''Toy Car'') []),
        (''a.a-link-normal'', tag (ascii ''See options'') [])]\<close>

definition shouting_container :: container where
  \<open>shouting_container =
     container_of
       [(''h2 a span'', tag (ascii ''Toy Car'') []),
        (''span.a-size-base'', tag (ascii ''Customer REVIEWS'') []),
        (''a.a-link-normal'', tag (ascii ''1,234 ratings'') [])]\<close>

definition squared_container :: container where
  \<open>squared_container =
     container_of
       [(''h2 a span'', tag (ascii ''Toy Car'') []),
        (''span.a-size-base'', tag (ascii ''m'' @ [178]) []),
        (''a.a-link-normal'', tag (ascii ''1,234 ratings'') [])]\<close>

text \<open>
  A network that answers every request with status 503, and random numbers that are
  all one half.
\<close>

definition env_503 :: env where
  "env_503 =
     \<lparr>http_get = (\<lambda>url n. Response \<lparr>status_code = 503, content = None\<rparr>),
      random = (\<lambda>n. 1 / 2),
      urljoin = plain_urljoin,
      lib = sample_lib\<rparr>"








text \<open>
  Reading a trace: the requests, the verdicts on pages, and the number of failures in
  a row that the verdicts end with.
\<close>

fun is_get :: "event \<Rightarrow> bool" where
  "is_get (Get url) = True"
| "is_get ev = False"

fun is_verdict :: "event \<Rightarrow> bool" where
  "is_verdict (PageFound n) = True"
| "is_verdict (PageFailed n) = True"
| "is_verdict ev = False"

fun is_failed :: "event \<Rightarrow> bool" where
  "is_failed (PageFailed n) = True"
| "is_failed ev = False"

definition trailing_failures :: "event list \<Rightarrow> nat" where
  "trailing_failures t = length (takeWhile is_failed (rev (filter is_verdict t)))"

text \<open>
  A page is found when the request got a response, the parser took it and a selector
  found a container on it.
\<close>

definition page_found :: "env \<Rightarrow> run \<Rightarrow> bool" where
  "page_found E L =
     (case fst (make_request_with_retry E (page_url (page_num L)) 3 (self L)) of
        None \<Rightarrow> False
      | Some resp \<Rightarrow>
          (case content resp of
             None \<Rightarrow> False
           | Some page \<Rightarrow> select_containers page product_selectors \<noteq> []))"

text \<open>
  A shop whose every page shows the same three containers, the second without a name.
\<close>

definition nameless_container :: container where
  "nameless_container = container_of [(''.a-price-whole'', tag (ascii ''499'') [])]"

definition shop_page :: soup where
  \<open>shop_page selector =
     (if selector = ''[data-component-type="s-search-result"]''
      then [counted_container, nameless_container, rated_container] else [])\<close>

definition env_shop :: env where
  "env_shop =
     \<lparr>http_get = (\<lambda>url n. Response \<lparr>status_code = 200, content = Some shop_page\<rparr>),
      random = (\<lambda>n. 0),
      urljoin = plain_urljoin,
      lib = sample_lib\<rparr>"

text \<open>
  A trace is settled when nothing follows a point at which the verdicts so far end
  with three failures in a row.
\<close>

definition settled :: "event list \<Rightarrow> bool" where
  "settled evs = (\<forall>t1 t2. evs = t1 @ t2 \<and> 3 \<le> trailing_failures t1 \<longrightarrow> t2 = [])"

text \<open>The records the shop's first and third container give.\<close>

definition counted_record :: product where
  "counted_record =
     \<lparr>Product_Name = ascii ''Toy Car'', Product_URL = [], Price = None, Rating = None,
      Number_of_Reviews = Some 1234\<rparr>"

definition rated_record :: product where
  "rated_record =
     \<lparr>Product_Name = ascii ''Toy Car'', Product_URL = [], Price = None,
      Rating = Some (Finite 12), Number_of_Reviews = None\<rparr>"

section \<open>Facts about the conversions and searches\<close>

lemma pow2_powr: "pow2 q = 2 powr (of_int q)"
  by (simp add: pow2_def powr_int)

lemma pow2_pos: "0 < pow2 q"
  by (simp add: pow2_def)

lemma binade_eq:
  assumes "pow2 e \<le> x" and "x < pow2 (e + 1)"
  shows "binade x = e"
proof -
  have "0 < x" using assms(1) pow2_pos [of e] by linarith
  then show ?thesis
    unfolding binade_def using assms
    by (simp add: floor_log_eq_powr_iff pow2_powr)
qed

lemma binade_bounds:
  assumes "0 < x"
  shows "pow2 (binade x) \<le> x" and "x < pow2 (binade x + 1)"
  using floor_log_eq_powr_iff [of x 2 "binade x"] assms
  by (simp_all add: binade_def pow2_powr)

lemma round_half_even_int: "round_half_even (of_int m) = m"
  by (simp add: round_half_even_def)

lemma round_half_even_nonneg: "0 \<le> z \<Longrightarrow> 0 \<le> round_half_even z"
  by (auto simp: round_half_even_def Let_def)

lemma to_double_exact:
  assumes "pow2 e \<le> x" and "x < pow2 (e + 1)" and "- 1022 \<le> e" and "e \<le> 1023"
    and "x / pow2 (e - 52) = of_int m"
  shows "to_double x = Finite x"
proof -
  have pos: "0 < x" using assms(1) pow2_pos [of e] by linarith
  have b: "binade x = e" by (rule binade_eq [OF assms(1,2)])
  have q: "max (binade x - 52) (- 1074) = e - 52"
    using assms(3) by (simp add: b)
  have y: "of_int (round_half_even (x / pow2 (e - 52))) * pow2 (e - 52) = x"
    unfolding assms(5) round_half_even_int using assms(5) pow2_pos [of "e - 52"]
    by (simp add: field_simps)
  have "pow2 (e + 1) \<le> pow2 1024"
    unfolding pow2_powr by (rule powr_mono) (use assms(4) in simp_all)
  moreover have "pow2 1024 = 2 ^ 1024"
    by (simp add: pow2_def)
  ultimately have "x < 2 ^ 1024"
    using assms(2) by linarith
  then show ?thesis
    using pos by (simp add: to_double_def q y Let_def)
qed

lemma to_double_nonneg: "to_double x = Finite y \<Longrightarrow> 0 \<le> y"
proof -
  assume a: "to_double x = Finite y"
  show ?thesis
  proof (cases "x \<le> 0")
    case True
    with a show ?thesis by (simp add: to_double_def)
  next
    case False
    let ?q = "max (binade x - 52) (- 1074)"
    have "0 \<le> x / pow2 ?q"
      using False pow2_pos [of ?q] by simp
    then have "0 \<le> round_half_even (x / pow2 ?q)"
      by (rule round_half_even_nonneg)
    then have "0 \<le> of_int (round_half_even (x / pow2 ?q)) * pow2 ?q"
      using pow2_pos [of ?q] by simp
    with a False show ?thesis
      by (simp add: to_double_def Let_def split: if_splits)
  qed
qed

lemma to_double_examples:
  "to_double 1234.5 = Finite 1234.5" "to_double 12 = Finite 12" "to_double 499 = Finite 499"
proof -
  show "to_double 1234.5 = Finite 1234.5"
    by (rule to_double_exact [where e = 10 and m = "2469 * 2 ^ 41"]) (simp_all add: pow2_def)
  show "to_double 12 = Finite 12"
    by (rule to_double_exact [where e = 3 and m = "3 * 2 ^ 51"]) (simp_all add: pow2_def)
  show "to_double 499 = Finite 499"
    by (rule to_double_exact [where e = 8 and m = "499 * 2 ^ 44"]) (simp_all add: pow2_def)
qed


lemma pow2_mono: "a \<le> b \<Longrightarrow> pow2 a \<le> pow2 b"
  unfolding pow2_powr by (rule powr_mono) simp_all

lemma to_double_int:
  assumes "0 \<le> n" and "n < 2 ^ 53"
  shows "to_double (of_int n) = Finite (of_int n)"
proof (cases "n = 0")
  case True
  then show ?thesis by (simp add: to_double_def)
next
  case False
  let ?x = "real_of_int n"
  let ?e = "binade ?x"
  have pos: "0 < ?x" and one: "1 \<le> ?x"
    using assms(1) False by simp_all
  have lo: "pow2 ?e \<le> ?x" and hi: "?x < pow2 (?e + 1)"
    using binade_bounds [OF pos] by simp_all
  have e0: "0 \<le> ?e"
  proof (rule ccontr)
    assume "\<not> 0 \<le> ?e"
    then have "pow2 (?e + 1) \<le> pow2 0"
      by (intro pow2_mono) simp
    then show False
      using hi one by (simp add: pow2_def)
  qed
  have e52: "?e \<le> 52"
  proof (rule ccontr)
    assume "\<not> ?e \<le> 52"
    then have "pow2 53 \<le> pow2 ?e"
      by (intro pow2_mono) simp
    moreover have "?x < pow2 53"
      using assms(2) by (simp add: pow2_def)
    ultimately show False
      using lo by linarith
  qed
  have sc: "?x / pow2 (?e - 52) = of_int (n * 2 ^ nat (52 - ?e))"
    using e52 by (simp add: pow2_def)
  show ?thesis
    by (rule to_double_exact [OF lo hi _ _ sc]) (use e0 e52 in simp_all)
qed

lemma comma_not_decimal: "\<not> is_decimal U comma"
  by (simp add: is_decimal_def comma_def)

lemma dot_not_decimal: "\<not> is_decimal U dot"
  by (simp add: is_decimal_def dot_def)

lemma set_remove_commas: "set (remove_commas s) = set s - {comma}"
  by (auto simp: remove_commas_def)

lemma remove_commas_id: "comma \<notin> set s \<Longrightarrow> remove_commas s = s"
  by (auto simp: remove_commas_def filter_id_conv)

lemma remove_commas_digits: "\<forall>c\<in>set s. is_decimal U c \<Longrightarrow> remove_commas s = s"
  by (rule remove_commas_id) (auto simp: comma_not_decimal)

lemma search_price_none: "\<forall>c\<in>set s. \<not> digit_or_comma U c \<Longrightarrow> search_price U s = None"
  by (induction s) simp_all

lemma search_price_skip:
  "\<forall>c\<in>set pre. \<not> digit_or_comma U c \<Longrightarrow> search_price U (pre @ s) = search_price U s"
  by (induction pre) simp_all

lemma search_rating_none: "\<forall>c\<in>set s. \<not> is_decimal U c \<Longrightarrow> search_rating U s = None"
  by (induction s) simp_all

lemma search_rating_skip:
  "\<forall>c\<in>set pre. \<not> is_decimal U c \<Longrightarrow> search_rating U (pre @ s) = search_rating U s"
  by (induction pre) simp_all

lemma search_review_none: "\<forall>c\<in>set s. \<not> digit_or_comma U c \<Longrightarrow> search_review U s = None"
  by (induction s) simp_all

lemma search_review_skip:
  "\<forall>c\<in>set pre. \<not> digit_or_comma U c \<Longrightarrow> search_review U (pre @ s) = search_review U s"
  by (induction pre) simp_all

lemma py_float_digits:
  assumes "ds \<noteq> []" "\<forall>c\<in>set ds. is_decimal U c"
  shows "py_float U ds = Inr (to_double (real (dec U ds)))"
proof -
  have tw: "takeWhile (is_decimal U) ds = ds" and dw: "dropWhile (is_decimal U) ds = []"
    using assms(2) by simp_all
  show ?thesis
    unfolding py_float_def tw dw using assms(1) by simp
qed

lemma py_float_fraction:
  assumes "\<forall>c\<in>set ds. is_decimal U c" "\<forall>c\<in>set fs. is_decimal U c" "ds \<noteq> [] \<or> fs \<noteq> []"
  shows "py_float U (ds @ dot # fs)
         = Inr (to_double (real (dec U ds) + real (dec U fs) / 10 ^ length fs))"
proof -
  have tw: "takeWhile (is_decimal U) (ds @ dot # fs) = ds"
    using assms(1) by (simp add: dot_not_decimal)
  have dw: "dropWhile (is_decimal U) (ds @ dot # fs) = dot # fs"
    using assms(1) by (simp add: dot_not_decimal)
  show ?thesis
    unfolding py_float_def tw dw using assms(2,3) by (simp add: list_all_iff)
qed

lemma to_double_is_nonneg: "nonneg (to_double x)"
  by (cases "to_double x") (auto simp: nonneg_def dest: to_double_nonneg)

lemma py_float_nonneg: "py_float U s = Inr v \<Longrightarrow> nonneg v"
  by (auto simp: py_float_def Let_def to_double_is_nonneg split: list.splits if_splits)

section \<open>Price buckets\<close>

text \<open>
  C7, as the code has it. \<^verbatim>\<open>categorize_price\<close> maps a missing price to
  \<^verbatim>\<open>No Price Listed\<close> and any other price to the bucket among \<open>[0, 500)\<close>,
  \<open>[500, 1000)\<close>, \<open>[1000, 2000)\<close>, \<open>[2000, 5000)\<close>, \<open>[5000, \<infinity>)\<close> that holds it, lower bound
  inclusive and upper bound exclusive. The labels are the source's, each with the
  rupee sign, and no two buckets share one; 499 is labelled as under 500 rupees and
  500 as from 500 to 1,000 rupees. An infinite price is in the last bucket, and the
  first bucket is that of every price below 500.
\<close>

theorem categorize_price_buckets:
  "categorize_price None = ascii ''No Price Listed''
   \<and> (p < 500 \<longrightarrow>
        categorize_price (Some (Finite p)) = ascii ''Under '' @ [rupee] @ ascii ''500'')
   \<and> (500 \<le> p \<and> p < 1000 \<longrightarrow>
        categorize_price (Some (Finite p))
          = [rupee] @ ascii ''500 - '' @ [rupee] @ ascii ''1,000'')
   \<and> (1000 \<le> p \<and> p < 2000 \<longrightarrow>
        categorize_price (Some (Finite p))
          = [rupee] @ ascii ''1,000 - '' @ [rupee] @ ascii ''2,000'')
   \<and> (2000 \<le> p \<and> p < 5000 \<longrightarrow>
        categorize_price (Some (Finite p))
          = [rupee] @ ascii ''2,000 - '' @ [rupee] @ ascii ''5,000'')
   \<and> (5000 \<le> p \<longrightarrow>
        categorize_price (Some (Finite p)) = ascii ''Above '' @ [rupee] @ ascii ''5,000'')
   \<and> categorize_price (Some Infinity) = ascii ''Above '' @ [rupee] @ ascii ''5,000''
   \<and> categorize_price (Some (Finite 499)) = ascii ''Under '' @ [rupee] @ ascii ''500''
   \<and> categorize_price (Some (Finite 500))
       = [rupee] @ ascii ''500 - '' @ [rupee] @ ascii ''1,000''
   \<and> distinct [ascii ''No Price Listed'', ascii ''Under '' @ [rupee] @ ascii ''500'',
                 [rupee] @ ascii ''500 - '' @ [rupee] @ ascii ''1,000'',
                 [rupee] @ ascii ''1,000 - '' @ [rupee] @ ascii ''2,000'',
                 [rupee] @ ascii ''2,000 - '' @ [rupee] @ ascii ''5,000'',
                 ascii ''Above '' @ [rupee] @ ascii ''5,000'']"
proof -
  have labels: "distinct [ascii ''No Price Listed'', ascii ''Under '' @ [rupee] @ ascii ''500'',
                 [rupee] @ ascii ''500 - '' @ [rupee] @ ascii ''1,000'',
                 [rupee] @ ascii ''1,000 - '' @ [rupee] @ ascii ''2,000'',
                 [rupee] @ ascii ''2,000 - '' @ [rupee] @ ascii ''5,000'',
                 ascii ''Above '' @ [rupee] @ ascii ''5,000'']"
    by (simp add: rupee_def ascii_def)
  have buckets: "categorize_price (Some (Finite q)) =
      (if q < 500 then ascii ''Under '' @ [rupee] @ ascii ''500''
       else if q < 1000 then [rupee] @ ascii ''500 - '' @ [rupee] @ ascii ''1,000''
       else if q < 2000 then [rupee] @ ascii ''1,000 - '' @ [rupee] @ ascii ''2,000''
       else if q < 5000 then [rupee] @ ascii ''2,000 - '' @ [rupee] @ ascii ''5,000''
       else ascii ''Above '' @ [rupee] @ ascii ''5,000'')" for q
    by (simp add: categorize_price_def below_def)
  have missing: "categorize_price None = ascii ''No Price Listed''"
    by (simp add: categorize_price_def)
  have inf: "categorize_price (Some Infinity) = ascii ''Above '' @ [rupee] @ ascii ''5,000''"
    by (simp add: categorize_price_def below_def)
  show ?thesis
    unfolding buckets missing inf using labels by simp
qed

theorem categorize_price_buckets_witness:
  "categorize_price (Some (Finite 250)) = ascii ''Under '' @ [rupee] @ ascii ''500''
   \<and> categorize_price (Some (Finite 750))
       = [rupee] @ ascii ''500 - '' @ [rupee] @ ascii ''1,000''
   \<and> categorize_price (Some (Finite 1500))
       = [rupee] @ ascii ''1,000 - '' @ [rupee] @ ascii ''2,000''
   \<and> categorize_price (Some (Finite 2000))
       = [rupee] @ ascii ''2,000 - '' @ [rupee] @ ascii ''5,000''
   \<and> categorize_price (Some (Finite 5000)) = ascii ''Above '' @ [rupee] @ ascii ''5,000''"
  using categorize_price_buckets [of 250] categorize_price_buckets [of 750]
    categorize_price_buckets [of 1500] categorize_price_buckets [of 2000]
    categorize_price_buckets [of 5000]
  by simp

theorem price_labels_carry_rupee_sign:
  "categorize_price (Some (Finite 499)) \<noteq> ascii ''Under 500''
   \<and> categorize_price (Some (Finite 500)) \<noteq> ascii ''500-1000''"
  by (simp add: categorize_price_def below_def rupee_def ascii_def)

section \<open>The leading number of a price text\<close>

lemma match_price_run:
  assumes ds: "\<forall>c\<in>set ds. is_decimal U c"
    and rest: "rest = [] \<or> \<not> digit_or_comma U (hd rest)"
  shows "match_price U (ds @ rest) =
     (case rest of
        d # a # b # _ \<Rightarrow> if d = dot \<and> is_decimal U a \<and> is_decimal U b then ds @ [d, a, b] else ds
      | _ \<Rightarrow> ds)"
proof -
  have tw: "takeWhile (digit_or_comma U) (ds @ rest) = ds"
    using ds rest by (cases rest) (simp_all add: digit_or_comma_def)
  have dw: "dropWhile (digit_or_comma U) (ds @ rest) = rest"
    using ds rest by (cases rest) (simp_all add: digit_or_comma_def)
  show ?thesis
    unfolding match_price_def tw dw by (simp add: Let_def)
qed

lemma search_price_run:
  assumes pre: "\<forall>c\<in>set pre. \<not> digit_or_comma U c"
    and ne: "ds \<noteq> []"
    and ds: "\<forall>c\<in>set ds. is_decimal U c"
  shows "search_price U (pre @ ds @ rest) = Some (match_price U (ds @ rest))"
proof -
  obtain c cs where c: "ds = c # cs"
    using ne by (cases ds) auto
  then have "digit_or_comma U c"
    using ds by (simp add: digit_or_comma_def)
  then have "search_price U (ds @ rest) = Some (match_price U (ds @ rest))"
    by (simp add: c)
  then show ?thesis
    by (simp add: search_price_skip [OF pre])
qed

lemma extract_price_number:
  assumes split: "remove_commas s = pre @ ds @ rest"
    and pre: "\<forall>c\<in>set pre. \<not> is_decimal U c"
    and ne: "ds \<noteq> []"
    and ds: "\<forall>c\<in>set ds. is_decimal U c"
    and rest: "rest = [] \<or> \<not> is_decimal U (hd rest)"
  shows "extract_price U s =
     Inr (Some (to_double
                  (case rest of
                     d # a # b # _ \<Rightarrow>
                       if d = dot \<and> is_decimal U a \<and> is_decimal U b
                       then real (dec U ds) + real (dec U [a, b]) / 100
                       else real (dec U ds)
                   | _ \<Rightarrow> real (dec U ds))))"
proof -
  have nocomma: "comma \<notin> set (pre @ ds @ rest)"
    using set_remove_commas [of s] by (simp add: split [symmetric])
  have pre': "\<forall>c\<in>set pre. \<not> digit_or_comma U c"
    using pre nocomma by (auto simp: digit_or_comma_def)
  have rest': "rest = [] \<or> \<not> digit_or_comma U (hd rest)"
    using rest nocomma by (cases rest) (auto simp: digit_or_comma_def)
  have s: "s \<noteq> []"
    using split ne by (auto simp: remove_commas_def)
  have found: "search_price U (remove_commas s) = Some (match_price U (ds @ rest))"
    unfolding split by (rule search_price_run [OF pre' ne ds])
  have m: "match_price U (ds @ rest) =
     (case rest of
        d # a # b # _ \<Rightarrow> if d = dot \<and> is_decimal U a \<and> is_decimal U b then ds @ [d, a, b] else ds
      | _ \<Rightarrow> ds)"
    by (rule match_price_run [OF ds rest'])
  have plain: "map_sum id Some (py_float U (remove_commas ds))
               = Inr (Some (to_double (real (dec U ds))))"
    by (simp add: remove_commas_digits [OF ds] py_float_digits [OF ne ds])
  have frac: "map_sum id Some (py_float U (remove_commas (ds @ [dot, a, b])))
              = Inr (Some (to_double (real (dec U ds) + real (dec U [a, b]) / 100)))"
    if "is_decimal U a" "is_decimal U b" for a b
  proof -
    have "comma \<notin> set (ds @ [dot, a, b])"
      using ds that comma_not_decimal [of U] by (auto simp: dot_def comma_def)
    then have "remove_commas (ds @ [dot, a, b]) = ds @ dot # [a, b]"
      by (simp add: remove_commas_id)
    moreover have "py_float U (ds @ dot # [a, b])
                   = Inr (to_double (real (dec U ds) + real (dec U [a, b]) / 10 ^ length [a, b]))"
      by (rule py_float_fraction) (use ds that ne in auto)
    ultimately show ?thesis by simp
  qed
  show ?thesis
    unfolding extract_price_def found m using s plain frac
    by (auto split: list.splits)
qed

lemma extract_price_no_digit:
  assumes "\<forall>c\<in>set s. \<not> is_decimal U c"
  shows "extract_price U s = Inr None"
proof -
  have "\<forall>c\<in>set (remove_commas s). \<not> digit_or_comma U c"
    using assms by (auto simp: set_remove_commas digit_or_comma_def)
  then show ?thesis
    by (simp add: extract_price_def search_price_none)
qed

lemma first_digit_run:
  assumes "\<exists>c\<in>set t. is_decimal U c"
  shows "\<exists>pre ds rest. t = pre @ ds @ rest \<and> (\<forall>c\<in>set pre. \<not> is_decimal U c) \<and> ds \<noteq> []
           \<and> (\<forall>c\<in>set ds. is_decimal U c) \<and> (rest = [] \<or> \<not> is_decimal U (hd rest))"
proof -
  let ?pre = "takeWhile (\<lambda>c. \<not> is_decimal U c) t"
  let ?u = "dropWhile (\<lambda>c. \<not> is_decimal U c) t"
  let ?ds = "takeWhile (is_decimal U) ?u"
  let ?rest = "dropWhile (is_decimal U) ?u"
  have "t = ?pre @ ?ds @ ?rest" by simp
  moreover have "\<forall>c\<in>set ?pre. \<not> is_decimal U c"
    by (auto dest: set_takeWhileD)
  moreover have "?u \<noteq> []"
    using assms by auto
  then have "?ds \<noteq> []"
    using hd_dropWhile [of "\<lambda>c. \<not> is_decimal U c" t] by (cases ?u) auto
  moreover have "\<forall>c\<in>set ?ds. is_decimal U c"
    by (auto dest: set_takeWhileD)
  moreover have "?rest = [] \<or> \<not> is_decimal U (hd ?rest)"
    using hd_dropWhile [of "is_decimal U" ?u] by auto
  ultimately show ?thesis by blast
qed

text \<open>
  C6. \<^verbatim>\<open>extract_price\<close> of the text \<^verbatim>\<open>1,234.50\<close> behind a rupee sign (which the tables
  do not count as a digit) is 1234.50, and of the empty text it is \<^verbatim>\<open>None\<close>. In
  general it never raises; a text without a decimal digit gives \<^verbatim>\<open>None\<close>; otherwise
  the text, its commas removed, splits into a part without digits, the first maximal run
  of digits and a remainder, and the result is the double of the value of that run,
  with the two digits of a fraction where the remainder starts with a dot and two digits.
\<close>

theorem extract_price_leading_number:
  "(\<not> is_decimal U rupee \<longrightarrow>
      extract_price U (rupee # ascii ''1,234.50'') = Inr (Some (Finite 1234.5)))
   \<and> extract_price U [] = Inr None
   \<and> ((\<forall>c\<in>set s. \<not> is_decimal U c) \<longrightarrow> extract_price U s = Inr None)
   \<and> ((\<exists>c\<in>set s. is_decimal U c) \<longrightarrow>
        (\<exists>pre ds rest.
           remove_commas s = pre @ ds @ rest \<and> (\<forall>c\<in>set pre. \<not> is_decimal U c) \<and> ds \<noteq> []
           \<and> (\<forall>c\<in>set ds. is_decimal U c) \<and> (rest = [] \<or> \<not> is_decimal U (hd rest))
           \<and> extract_price U s =
               Inr (Some (to_double
                            (case rest of
                               d # a # b # _ \<Rightarrow>
                                 if d = dot \<and> is_decimal U a \<and> is_decimal U b
                                 then real (dec U ds) + real (dec U [a, b]) / 100
                                 else real (dec U ds)
                             | _ \<Rightarrow> real (dec U ds))))))"
proof (intro conjI impI)
  assume r: "\<not> is_decimal U rupee"
  have "extract_price U (rupee # ascii ''1,234.50'') =
     Inr (Some (to_double
                  (case ascii ''.50'' of
                     d # a # b # _ \<Rightarrow>
                       if d = dot \<and> is_decimal U a \<and> is_decimal U b
                       then real (dec U (ascii ''1234'')) + real (dec U [a, b]) / 100
                       else real (dec U (ascii ''1234''))
                   | _ \<Rightarrow> real (dec U (ascii ''1234'')))))"
    by (rule extract_price_number [where pre = "[rupee]"])
       (use r in \<open>simp_all add: remove_commas_def comma_def rupee_def ascii_def is_decimal_def\<close>)
  also have "(case ascii ''.50'' of
                     d # a # b # _ \<Rightarrow>
                       if d = dot \<and> is_decimal U a \<and> is_decimal U b
                       then real (dec U (ascii ''1234'')) + real (dec U [a, b]) / 100
                       else real (dec U (ascii ''1234''))
                   | _ \<Rightarrow> real (dec U (ascii ''1234''))) = 1234.5"
    by (simp add: ascii_def dot_def is_decimal_def dec_def digit_val_def)
  finally show "extract_price U (rupee # ascii ''1,234.50'') = Inr (Some (Finite 1234.5))"
    by (simp only: to_double_examples)
next
  show "extract_price U [] = Inr None"
    by (simp add: extract_price_def)
  show "extract_price U s = Inr None" if "\<forall>c\<in>set s. \<not> is_decimal U c"
    using that by (rule extract_price_no_digit)
next
  assume "\<exists>c\<in>set s. is_decimal U c"
  then have "\<exists>c\<in>set (remove_commas s). is_decimal U c"
    by (auto simp: set_remove_commas comma_not_decimal)
  from first_digit_run [OF this] obtain pre ds rest where
    d: "remove_commas s = pre @ ds @ rest" "\<forall>c\<in>set pre. \<not> is_decimal U c" "ds \<noteq> []"
       "\<forall>c\<in>set ds. is_decimal U c" "rest = [] \<or> \<not> is_decimal U (hd rest)"
    by blast
  from extract_price_number [OF d] d
  show "\<exists>pre ds rest.
           remove_commas s = pre @ ds @ rest \<and> (\<forall>c\<in>set pre. \<not> is_decimal U c) \<and> ds \<noteq> []
           \<and> (\<forall>c\<in>set ds. is_decimal U c) \<and> (rest = [] \<or> \<not> is_decimal U (hd rest))
           \<and> extract_price U s =
               Inr (Some (to_double
                            (case rest of
                               d # a # b # _ \<Rightarrow>
                                 if d = dot \<and> is_decimal U a \<and> is_decimal U b
                                 then real (dec U ds) + real (dec U [a, b]) / 100
                                 else real (dec U ds)
                             | _ \<Rightarrow> real (dec U ds))))"
    by blast
qed

lemma digit_run_unique:
  assumes "t = pre @ ds @ rest" and "\<forall>c\<in>set pre. \<not> P c" and "ds \<noteq> []"
    and "\<forall>c\<in>set ds. P c" and "rest = [] \<or> \<not> P (hd rest)"
  shows "ds = takeWhile P (dropWhile (\<lambda>c. \<not> P c) t)"
    and "rest = dropWhile P (dropWhile (\<lambda>c. \<not> P c) t)"
proof -
  have "dropWhile (\<lambda>c. \<not> P c) t = dropWhile (\<lambda>c. \<not> P c) (ds @ rest)"
    unfolding assms(1) using assms(2) by (simp add: dropWhile_append2)
  also have "\<dots> = ds @ rest"
    using assms(3,4) by (cases ds) auto
  finally have d: "dropWhile (\<lambda>c. \<not> P c) t = ds @ rest" .
  have r: "takeWhile P rest = []" "dropWhile P rest = rest"
    using assms(5) by (cases rest; simp)+
  show "ds = takeWhile P (dropWhile (\<lambda>c. \<not> P c) t)"
    unfolding d using assms(4) r by (simp add: takeWhile_append2)
  show "rest = dropWhile P (dropWhile (\<lambda>c. \<not> P c) t)"
    unfolding d using assms(4) r by (simp add: dropWhile_append2)
qed

lemmas sample_lib_defs = sample_lib_def is_decimal_def digit_val_def isdigit_def is_space_def

theorem extract_price_leading_number_witness:
  "\<not> is_decimal sample_lib rupee
   \<and> extract_price sample_lib (rupee # ascii ''1,234.50'') = Inr (Some (Finite 1234.5))
   \<and> extract_price sample_lib (ascii ''N/A'') = Inr None
   \<and> extract_price sample_lib (ascii ''Rs. 1,299'') = Inr (Some (Finite 1299))
   \<and> extract_price sample_lib [1633, 1634, 1635, dot, 1637] = Inr (Some (Finite 123))"
proof -
  let ?U = sample_lib
  have r: "\<not> is_decimal ?U rupee"
    by (simp add: sample_lib_defs rupee_def)
  have a: "\<forall>c\<in>set (ascii ''N/A''). \<not> is_decimal ?U c"
    by (simp add: sample_lib_defs ascii_def)
  have one: "extract_price ?U (rupee # ascii ''1,234.50'') = Inr (Some (Finite 1234.5))"
    and two: "extract_price ?U (ascii ''N/A'') = Inr None"
    using extract_price_leading_number [of ?U "ascii ''N/A''"] r a by blast+
  have three: "extract_price ?U t = Inr (Some (Finite (real_of_int n)))"
    if b: "\<exists>c\<in>set t. is_decimal ?U c"
      and ds: "takeWhile (is_decimal ?U) (dropWhile (\<lambda>c. \<not> is_decimal ?U c) (remove_commas t)) = ds"
      and rest: "dropWhile (is_decimal ?U) (dropWhile (\<lambda>c. \<not> is_decimal ?U c) (remove_commas t)) = rest"
      and v: "(case rest of
                 d # a # b # _ \<Rightarrow>
                   if d = dot \<and> is_decimal ?U a \<and> is_decimal ?U b
                   then real (dec ?U ds) + real (dec ?U [a, b]) / 100
                   else real (dec ?U ds)
               | _ \<Rightarrow> real (dec ?U ds)) = real_of_int n"
      and n: "0 \<le> n" "n < 2 ^ 53"
    for t ds rest n
  proof -
    from extract_price_leading_number [of ?U t] b
    obtain pre' ds' rest' where
      d: "remove_commas t = pre' @ ds' @ rest'" "\<forall>c\<in>set pre'. \<not> is_decimal ?U c" "ds' \<noteq> []"
         "\<forall>c\<in>set ds'. is_decimal ?U c" "rest' = [] \<or> \<not> is_decimal ?U (hd rest')"
      and e: "extract_price ?U t =
               Inr (Some (to_double
                            (case rest' of
                               d # a # b # _ \<Rightarrow>
                                 if d = dot \<and> is_decimal ?U a \<and> is_decimal ?U b
                                 then real (dec ?U ds') + real (dec ?U [a, b]) / 100
                                 else real (dec ?U ds')
                             | _ \<Rightarrow> real (dec ?U ds'))))"
      by blast
    have eq: "ds' = ds" "rest' = rest"
      using digit_run_unique [OF d] ds rest by simp_all
    show ?thesis
      unfolding e eq v to_double_int [OF n] by (rule refl)
  qed
  have four: "extract_price ?U (ascii ''Rs. 1,299'') = Inr (Some (Finite (real_of_int 1299)))"
    by (rule three [where ds = "ascii ''1299''" and rest = "[]"])
       (simp_all add: sample_lib_defs ascii_def remove_commas_def comma_def dec_def)
  have five: "extract_price ?U [1633, 1634, 1635, dot, 1637] = Inr (Some (Finite (real_of_int 123)))"
    by (rule three [where ds = "[1633, 1634, 1635]" and rest = "[dot, 1637]"])
       (simp_all add: sample_lib_defs remove_commas_def comma_def dot_def dec_def)
  from r one two four five show ?thesis
    by simp
qed

section \<open>The review count and the rating of a record\<close>

lemmas sample_defs = container_of_def tag_def plain_urljoin_def
lemmas selector_defs = name_selectors_def price_selectors_def rating_selectors_def review_selectors_def
lemmas text_defs = remove_commas_def digit_or_comma_def dec_def comma_def dot_def ascii_def
  lower_def lower_char_def strip_def clean_text_def

lemma contains_iff: "contains needle hay \<longleftrightarrow> (\<exists>pre post. hay = pre @ needle @ post)"
proof (induction hay)
  case Nil
  then show ?case by auto
next
  case (Cons c cs)
  have "take (length needle) (c # cs) = needle \<longleftrightarrow> (\<exists>post. c # cs = needle @ post)"
    by (metis append_eq_conv_conj append_take_drop_id)
  moreover have "(\<exists>pre post. c # cs = pre @ needle @ post)
      \<longleftrightarrow> (\<exists>post. c # cs = needle @ post) \<or> (\<exists>pre post. cs = pre @ needle @ post)"
  proof
    assume "\<exists>pre post. c # cs = pre @ needle @ post"
    then obtain pre post where e: "c # cs = pre @ needle @ post" by blast
    show "(\<exists>post. c # cs = needle @ post) \<or> (\<exists>pre post. cs = pre @ needle @ post)"
    proof (cases pre)
      case Nil
      with e show ?thesis by auto
    next
      case (Cons p ps)
      with e have "cs = ps @ needle @ post" by simp
      then show ?thesis by blast
    qed
  next
    assume "(\<exists>post. c # cs = needle @ post) \<or> (\<exists>pre post. cs = pre @ needle @ post)"
    then show "\<exists>pre post. c # cs = pre @ needle @ post"
    proof
      assume "\<exists>post. c # cs = needle @ post"
      then obtain post where "c # cs = [] @ needle @ post" by auto
      then show ?thesis by blast
    next
      assume "\<exists>pre post. cs = pre @ needle @ post"
      then obtain pre post where "c # cs = (c # pre) @ needle @ post" by auto
      then show ?thesis by blast
    qed
  qed
  ultimately show ?case
    using Cons.IH by simp
qed

lemma decimal_isdigit: "is_decimal U c \<Longrightarrow> isdigit U c"
  by (simp add: isdigit_def)

lemma review_valid_iff:
  "review_valid U t \<longleftrightarrow>
     (\<exists>pre post. lower U t = pre @ ascii ''review'' @ post) \<or> (\<exists>ch\<in>set t. isdigit U ch)"
  by (simp add: review_valid_def contains_iff list_ex_iff)

lemma search_review_eq:
  "search_review U u =
     (let v = dropWhile (\<lambda>c. \<not> digit_or_comma U c) u in
      if v = [] then None else Some (takeWhile (digit_or_comma U) v))"
  by (induction u) (simp_all add: Let_def)

lemma py_int_digits:
  assumes "ds \<noteq> []" "\<forall>c\<in>set ds. is_decimal U c"
  shows "py_int U (remove_commas ds) =
           (if max_str_digits U = 0 \<or> length ds \<le> max_str_digits U
            then Inr (int (dec U ds)) else Inl ValueError)"
  using assms by (simp add: remove_commas_digits py_int_def list_all_iff)

lemma extract_review_count_eq:
  "extract_review_count U t =
     (if max_str_digits U = 0 \<or> digit_run_length U t \<le> max_str_digits U
      then Inr (digit_sequence U t) else Inl ValueError)"
proof (cases "t = []")
  case True
  then show ?thesis
    by (simp add: extract_review_count_def digit_sequence_def digit_run_length_def
        remove_commas_def)
next
  case False
  let ?u = "remove_commas t"
  let ?v = "dropWhile (\<lambda>c. \<not> is_decimal U c) ?u"
  let ?m = "takeWhile (is_decimal U) ?v"
  have nc: "comma \<notin> set ?u"
    by (simp add: set_remove_commas)
  have same: "digit_or_comma U c = is_decimal U c" if "c \<in> set ?u" for c
    using that nc by (auto simp: digit_or_comma_def)
  have dw: "dropWhile (\<lambda>c. \<not> digit_or_comma U c) ?u = ?v"
    by (rule dropWhile_cong) (simp_all add: same)
  have sub: "set ?v \<subseteq> set ?u"
    by (auto dest: set_dropWhileD)
  have tw: "takeWhile (digit_or_comma U) ?v = ?m"
    by (rule takeWhile_cong) (use sub same in auto)
  have sr: "search_review U ?u = (if ?v = [] then None else Some ?m)"
    unfolding search_review_eq Let_def dw tw by (rule refl)
  have dsq: "digit_sequence U t = (if ?v = [] then None else Some (int (dec U ?m)))"
    unfolding digit_sequence_def Let_def by (rule refl)
  have drl: "digit_run_length U t = length ?m"
    unfolding digit_run_length_def by (rule refl)
  have er: "extract_review_count U t =
      (case search_review U ?u of
         Some m \<Rightarrow> map_sum id Some (py_int U (remove_commas m))
       | None \<Rightarrow> Inr None)"
    unfolding extract_review_count_def using False by simp
  show ?thesis
  proof (cases "?v = []")
    case True
    have m: "?m = []"
      unfolding True by simp
    show ?thesis
      unfolding er sr dsq drl m using True by simp
  next
    case v: False
    have digs: "\<forall>c\<in>set ?m. is_decimal U c"
      by (auto dest: set_takeWhileD)
    have "is_decimal U (hd ?v)"
      using v hd_dropWhile [of "\<lambda>c. \<not> is_decimal U c" ?u] by auto
    then have ne: "?m \<noteq> []"
      using v by (cases ?v) auto
    have pi: "py_int U (remove_commas ?m) =
           (if max_str_digits U = 0 \<or> length ?m \<le> max_str_digits U
            then Inr (int (dec U ?m)) else Inl ValueError)"
      by (rule py_int_digits [OF ne digs])
    have "extract_review_count U t = map_sum id Some (py_int U (remove_commas ?m))"
      unfolding er sr using v by auto
    also have "\<dots> = (if max_str_digits U = 0 \<or> length ?m \<le> max_str_digits U
            then Inr (Some (int (dec U ?m))) else Inl ValueError)"
      unfolding pi by simp
    also have "\<dots> = (if max_str_digits U = 0 \<or> digit_run_length U t \<le> max_str_digits U
      then Inr (digit_sequence U t) else Inl ValueError)"
      unfolding dsq drl using v by auto
    finally show ?thesis .
  qed
qed

lemma digit_sequence_invalid:
  assumes "\<not> review_valid U t"
  shows "digit_sequence U t = None" and "digit_run_length U t = 0"
proof -
  from assms have "\<forall>c\<in>set (remove_commas t). \<not> is_decimal U c"
    by (auto simp: review_valid_def list_ex_iff set_remove_commas dest: decimal_isdigit)
  then have d: "dropWhile (\<lambda>c. \<not> is_decimal U c) (remove_commas t) = []"
    by simp
  show "digit_sequence U t = None"
    by (simp add: digit_sequence_def d)
  show "digit_run_length U t = 0"
    by (simp add: digit_run_length_def d)
qed

lemma find_map_text:
  "find P (map f xs) = map_option f (find (\<lambda>x. P (f x)) xs)"
  by (induction xs) simp_all

text \<open>
  What the review loop leaves in \<^verbatim>\<open>review_element\<close>: the first accepted candidate
  where there is one; otherwise nothing or a candidate that was not accepted.
\<close>

lemma review_loop_first:
  assumes "cur = None \<or> \<not> review_valid U (get_text (the cur))"
  shows "case find (\<lambda>e. review_valid U (get_text e)) (List.map_filter c sels) of
           Some e \<Rightarrow> review_loop U c sels cur = Some e
         | None \<Rightarrow> review_loop U c sels cur = None
                    \<or> \<not> review_valid U (get_text (the (review_loop U c sels cur)))"
  using assms
proof (induction sels arbitrary: cur)
  case Nil
  then show ?case by (simp add: List.map_filter_simps)
next
  case (Cons s sels)
  show ?case
  proof (cases "c s")
    case None
    then show ?thesis
      using Cons.IH [of None] by (simp add: List.map_filter_simps split: option.splits)
  next
    case (Some e)
    show ?thesis
    proof (cases "review_valid U (get_text e)")
      case True
      with Some show ?thesis by (simp add: List.map_filter_simps)
    next
      case False
      with Some Cons.IH [of "Some e"] show ?thesis
        by (simp add: List.map_filter_simps split: option.splits)
    qed
  qed
qed

text \<open>
  The review count of a container in the specification's words: the digit sequence of
  the first accepted candidate, a \<^verbatim>\<open>ValueError\<close> where that sequence is longer than
  \<^verbatim>\<open>int\<close> converts.
\<close>

lemma scrape_reviews_eq:
  "scrape_reviews U c =
     (case find (review_valid U) (map get_text (List.map_filter c review_selectors)) of
        None \<Rightarrow> Inr None
      | Some t \<Rightarrow>
          if max_str_digits U = 0 \<or> digit_run_length U t \<le> max_str_digits U
          then Inr (digit_sequence U t) else Inl ValueError)"
proof -
  let ?cands = "List.map_filter c review_selectors"
  have l: "case find (\<lambda>e. review_valid U (get_text e)) ?cands of
           Some e \<Rightarrow> review_loop U c review_selectors None = Some e
         | None \<Rightarrow> review_loop U c review_selectors None = None
                    \<or> \<not> review_valid U (get_text (the (review_loop U c review_selectors None)))"
    by (rule review_loop_first) simp
  show ?thesis
  proof (cases "find (\<lambda>e. review_valid U (get_text e)) ?cands")
    case None
    with l show ?thesis
      by (cases "review_loop U c review_selectors None")
         (auto simp: scrape_reviews_def find_map_text extract_review_count_eq
            digit_sequence_invalid)
  next
    case (Some e)
    with l show ?thesis
      by (simp add: scrape_reviews_def find_map_text extract_review_count_eq)
  qed
qed

lemma scrape_product_details_fields:
  assumes "scrape_product_details U uj c = Some p"
  shows "scrape_rating U c = Inr (Rating p)" and "scrape_reviews U c = Inr (Number_of_Reviews p)"
    and "scrape_price U c = Inr (Price p)" and "Product_Name p = scrape_name U c"
  using assms by (auto simp: scrape_product_details_def split: sum.splits)

lemma scrape_product_details_raises:
  assumes "scrape_reviews U c = Inl e"
  shows "scrape_product_details U uj c = None"
  using assms by (auto simp: scrape_product_details_def split: sum.splits)

text \<open>
  C2. The review count of a record is taken from the first candidate, in the order of
  the review selectors, whose text holds \<^verbatim>\<open>review\<close> in any case or a digit: it is the
  first run of decimal digits of that text, separators stripped, as an integer; it is
  \<^verbatim>\<open>None\<close> where no candidate is accepted. On an ASCII text the test is written out:
  the text, its capitals lowered, holds \<^verbatim>\<open>review\<close>, or the text holds one of the
  characters \<^verbatim>\<open>0\<close> to \<^verbatim>\<open>9\<close>. Where the run of digits is longer than \<^verbatim>\<open>int\<close> converts,
  the conversion raises and the container gives no record.
\<close>

theorem review_count_first_validated:
  "(review_valid U t \<longleftrightarrow>
      (\<exists>pre post. lower U t = pre @ ascii ''review'' @ post) \<or> (\<exists>ch\<in>set t. isdigit U ch))
   \<and> (list_all (\<lambda>ch. ch < 128) t \<longrightarrow>
        (review_valid U t \<longleftrightarrow>
           (\<exists>pre post. map lower_char t = pre @ ascii ''review'' @ post)
           \<or> (\<exists>ch\<in>set t. 48 \<le> ch \<and> ch \<le> 57)))
   \<and> scrape_reviews U c =
       (case find (review_valid U) (map get_text (List.map_filter c review_selectors)) of
          None \<Rightarrow> Inr None
        | Some t \<Rightarrow>
            if max_str_digits U = 0 \<or> digit_run_length U t \<le> max_str_digits U
            then Inr (digit_sequence U t) else Inl ValueError)
   \<and> (scrape_product_details U uj c = Some p \<longrightarrow>
        Number_of_Reviews p =
          (case find (review_valid U) (map get_text (List.map_filter c review_selectors)) of
             None \<Rightarrow> None
           | Some t \<Rightarrow> digit_sequence U t))
   \<and> (scrape_reviews U c = Inl ValueError \<longrightarrow> scrape_product_details U uj c = None)"
proof (intro conjI impI)
  show "review_valid U t \<longleftrightarrow>
      (\<exists>pre post. lower U t = pre @ ascii ''review'' @ post) \<or> (\<exists>ch\<in>set t. isdigit U ch)"
    by (rule review_valid_iff)
  show "review_valid U t \<longleftrightarrow>
           (\<exists>pre post. map lower_char t = pre @ ascii ''review'' @ post)
           \<or> (\<exists>ch\<in>set t. 48 \<le> ch \<and> ch \<le> 57)"
    if a: "list_all (\<lambda>ch. ch < 128) t"
  proof -
    have l: "lower U t = map lower_char t"
      using a by (simp add: lower_def)
    have d: "isdigit U ch \<longleftrightarrow> 48 \<le> ch \<and> ch \<le> 57" if "ch \<in> set t" for ch
      using a that by (auto simp: isdigit_def is_decimal_def list_all_iff)
    show ?thesis
      unfolding review_valid_iff l using d by auto
  qed
  show "scrape_reviews U c =
       (case find (review_valid U) (map get_text (List.map_filter c review_selectors)) of
          None \<Rightarrow> Inr None
        | Some t \<Rightarrow>
            if max_str_digits U = 0 \<or> digit_run_length U t \<le> max_str_digits U
            then Inr (digit_sequence U t) else Inl ValueError)"
    by (rule scrape_reviews_eq)
  show "Number_of_Reviews p =
          (case find (review_valid U) (map get_text (List.map_filter c review_selectors)) of
             None \<Rightarrow> None
           | Some t \<Rightarrow> digit_sequence U t)"
    if "scrape_product_details U uj c = Some p"
    using scrape_product_details_fields(2) [OF that] scrape_reviews_eq [of U c]
    by (auto split: option.splits if_splits)
  show "scrape_product_details U uj c = None" if "scrape_reviews U c = Inl ValueError"
    using that by (rule scrape_product_details_raises)
qed

lemmas record_defs = scrape_product_details_def scrape_url_def scrape_price_def
  scrape_rating_def scrape_reviews_def scrape_name_def rating_text_def attr_get_def
  review_valid_def extract_review_count_def extract_rating_def extract_price_def
  match_rating_def match_price_def py_int_def

lemma counted_container_record:
  "scrape_product_details sample_lib plain_urljoin counted_container = Some counted_record"
  by (simp add: record_defs counted_container_def counted_record_def sample_defs selector_defs
      text_defs sample_lib_defs)

lemma counted_container_candidates:
  "find (review_valid sample_lib)
     (map get_text (List.map_filter counted_container review_selectors))
   = Some (ascii ''1,234 ratings'')"
  by (simp add: counted_container_def sample_defs selector_defs List.map_filter_simps
      review_valid_def text_defs sample_lib_defs)

lemma button_container_record:
  "scrape_product_details sample_lib plain_urljoin button_container =
     Some \<lparr>Product_Name = ascii ''Toy Car'', Product_URL = [], Price = None, Rating = None,
           Number_of_Reviews = None\<rparr>"
  by (simp add: record_defs button_container_def sample_defs selector_defs
      text_defs sample_lib_defs)

lemma button_container_candidates:
  "find (review_valid sample_lib)
     (map get_text (List.map_filter button_container review_selectors)) = None"
  by (simp add: button_container_def sample_defs selector_defs List.map_filter_simps
      review_valid_def text_defs sample_lib_defs)

lemma shouting_container_record:
  "scrape_product_details sample_lib plain_urljoin shouting_container \<noteq> None"
  by (simp add: record_defs shouting_container_def sample_defs selector_defs
      text_defs sample_lib_defs)

lemma shouting_container_candidates:
  "find (review_valid sample_lib)
     (map get_text (List.map_filter shouting_container review_selectors))
   = Some (ascii ''Customer REVIEWS'')"
  by (simp add: shouting_container_def sample_defs selector_defs List.map_filter_simps
      review_valid_def text_defs sample_lib_defs)

lemma squared_container_record:
  "scrape_product_details sample_lib plain_urljoin squared_container \<noteq> None"
  by (simp add: record_defs squared_container_def sample_defs selector_defs
      text_defs sample_lib_defs)

lemma squared_container_candidates:
  "find (review_valid sample_lib)
     (map get_text (List.map_filter squared_container review_selectors))
   = Some (ascii ''m'' @ [178])"
  by (simp add: squared_container_def sample_defs selector_defs List.map_filter_simps
      review_valid_def text_defs sample_lib_defs)

lemma sample_digit_sequences:
  "digit_sequence sample_lib (ascii ''1,234 ratings'') = Some 1234"
  "digit_sequence sample_lib (ascii ''Customer REVIEWS'') = None"
  "digit_sequence sample_lib (ascii ''m'' @ [178]) = None"
  "digit_sequence sample_lib [1633, 1634, 32, 1635] = Some 12"
  by (simp_all add: digit_sequence_def text_defs sample_lib_defs)

theorem review_count_first_validated_witness:
  "scrape_product_details sample_lib plain_urljoin counted_container \<noteq> None
   \<and> Number_of_Reviews (the (scrape_product_details sample_lib plain_urljoin counted_container))
       = Some 1234
   \<and> scrape_product_details sample_lib plain_urljoin button_container \<noteq> None
   \<and> Number_of_Reviews (the (scrape_product_details sample_lib plain_urljoin button_container))
       = None
   \<and> scrape_product_details sample_lib plain_urljoin shouting_container \<noteq> None
   \<and> Number_of_Reviews (the (scrape_product_details sample_lib plain_urljoin shouting_container))
       = None
   \<and> scrape_product_details sample_lib plain_urljoin squared_container \<noteq> None
   \<and> Number_of_Reviews (the (scrape_product_details sample_lib plain_urljoin squared_container))
       = None
   \<and> list_all (\<lambda>ch. ch < 128) (ascii ''Customer REVIEWS'')
   \<and> review_valid sample_lib (ascii ''Customer REVIEWS'')
   \<and> \<not> review_valid sample_lib (ascii ''See options'')
   \<and> review_valid sample_lib (ascii ''m'' @ [178])"
proof -
  let ?U = sample_lib
  have field: "Number_of_Reviews (the (scrape_product_details ?U plain_urljoin c)) =
          (case find (review_valid ?U) (map get_text (List.map_filter c review_selectors)) of
             None \<Rightarrow> None
           | Some t \<Rightarrow> digit_sequence ?U t)"
    if "scrape_product_details ?U plain_urljoin c \<noteq> None" for c
    using review_count_first_validated
            [of ?U "[]" c plain_urljoin "the (scrape_product_details ?U plain_urljoin c)"] that
    by auto
  have c: "scrape_product_details ?U plain_urljoin counted_container \<noteq> None"
    and b: "scrape_product_details ?U plain_urljoin button_container \<noteq> None"
    by (simp_all add: counted_container_record button_container_record)
  note s = shouting_container_record and q = squared_container_record
  have ascii: "list_all (\<lambda>ch. ch < 128) (ascii ''Customer REVIEWS'')"
    "list_all (\<lambda>ch. ch < 128) (ascii ''See options'')"
    by (simp_all add: ascii_def)
  have v1: "review_valid ?U (ascii ''Customer REVIEWS'')"
  proof -
    have "map lower_char (ascii ''Customer REVIEWS'')
          = ascii ''customer '' @ ascii ''review'' @ ascii ''s''"
      by (simp add: ascii_def lower_char_def)
    then have "\<exists>pre post. map lower_char (ascii ''Customer REVIEWS'')
                 = pre @ ascii ''review'' @ post"
      by blast
    with review_count_first_validated [of ?U "ascii ''Customer REVIEWS''"] ascii(1)
    show ?thesis by blast
  qed
  have v2: "\<not> review_valid ?U (ascii ''See options'')"
    by (simp add: review_valid_def text_defs sample_lib_defs)
  have v3: "review_valid ?U (ascii ''m'' @ [178])"
  proof -
    have "\<exists>ch\<in>set (ascii ''m'' @ [178]). isdigit ?U ch"
      by (simp add: sample_lib_defs)
    with review_count_first_validated [of ?U "ascii ''m'' @ [178]"]
    show ?thesis by blast
  qed
  show ?thesis
    unfolding field [OF c] field [OF b] field [OF s] field [OF q]
      counted_container_candidates button_container_candidates
      shouting_container_candidates squared_container_candidates
    using c b s q ascii(1) v1 v2 v3 by (simp add: sample_digit_sequences)
qed

lemma search_rating_eq:
  "search_rating U t =
     (let u = dropWhile (\<lambda>c. \<not> is_decimal U c) t in
      if u = [] then None else Some (match_rating U u))"
  by (induction t) (simp_all add: Let_def)

lemma to_double_4_5: "to_double 4.5 = Finite 4.5"
  by (rule to_double_exact [where e = 2 and m = "9 * 2 ^ 49"]) (simp_all add: pow2_def)

text \<open>The number \<^verbatim>\<open>extract_rating\<close> reads is the first decimal number of the text.\<close>

lemma extract_rating_eq: "extract_rating U t = Inr (first_number U t)"
proof (cases "dropWhile (\<lambda>c. \<not> is_decimal U c) t = []")
  case True
  then show ?thesis
    by (simp add: extract_rating_def first_number_def search_rating_eq)
next
  case False
  let ?u = "dropWhile (\<lambda>c. \<not> is_decimal U c) t"
  let ?ip = "takeWhile (is_decimal U) ?u"
  let ?rest = "dropWhile (is_decimal U) ?u"
  have t: "t \<noteq> []"
    using False by auto
  have ip: "\<forall>c\<in>set ?ip. is_decimal U c"
    by (auto dest: set_takeWhileD)
  have "is_decimal U (hd ?u)"
    using False hd_dropWhile [of "\<lambda>c. \<not> is_decimal U c" t] by auto
  then have ne: "?ip \<noteq> []"
    using False by (cases ?u) auto
  have sr: "search_rating U t = Some (match_rating U ?u)"
    unfolding search_rating_eq Let_def using False by (simp only: if_False)
  have er: "extract_rating U t = map_sum id Some (py_float U (match_rating U ?u))"
    unfolding extract_rating_def sr using t by simp
  have plain: "py_float U ?ip = Inr (to_double (real (dec U ?ip)))"
    by (rule py_float_digits [OF ne ip])
  have fn: "first_number U t =
      (case ?rest of
         [] \<Rightarrow> Some (to_double (real (dec U ?ip)))
       | d # r \<Rightarrow>
           if d = dot
           then Some (to_double (real (dec U ?ip)
                  + real (dec U (takeWhile (is_decimal U) r))
                    / 10 ^ length (takeWhile (is_decimal U) r)))
           else Some (to_double (real (dec U ?ip))))"
    unfolding first_number_def Let_def using False by (simp only: if_False)
  show ?thesis
  proof (cases ?rest)
    case Nil
    have m: "match_rating U ?u = ?ip"
      unfolding match_rating_def Let_def Nil by simp
    show ?thesis
      unfolding er m plain fn Nil by simp
  next
    case (Cons d r)
    show ?thesis
    proof (cases "d = dot")
      case True
      let ?fs = "takeWhile (is_decimal U) r"
      have fs: "\<forall>c\<in>set ?fs. is_decimal U c"
        by (auto dest: set_takeWhileD)
      have m: "match_rating U ?u = ?ip @ dot # ?fs"
        unfolding match_rating_def Let_def Cons True by simp
      have f: "py_float U (?ip @ dot # ?fs)
               = Inr (to_double (real (dec U ?ip) + real (dec U ?fs) / 10 ^ length ?fs))"
        by (rule py_float_fraction [OF ip fs]) (simp add: ne)
      show ?thesis
        unfolding er m f fn Cons True by simp
    next
      case d: False
      have m: "match_rating U ?u = ?ip"
        unfolding match_rating_def Let_def Cons using d by simp
      show ?thesis
        unfolding er m plain fn Cons using d by simp
    qed
  qed
qed

lemma scrape_rating_eq:
  "scrape_rating U c =
     Inr (case select_first c rating_selectors of
            None \<Rightarrow> None
          | Some e \<Rightarrow> first_number U (rating_text e))"
  by (simp add: scrape_rating_def extract_rating_eq split: option.splits)

lemma first_number_nonneg:
  assumes "first_number U t = Some r"
  shows "nonneg r"
proof -
  have "extract_rating U t = Inr (Some r)"
    by (simp add: extract_rating_eq assms)
  then obtain m where "py_float U m = Inr r"
    by (cases "py_float U (the (search_rating U t))")
       (auto simp: extract_rating_def split: if_splits option.splits)
  then show ?thesis by (rule py_float_nonneg)
qed

text \<open>
  C9, as the code has it. A record's rating is \<^verbatim>\<open>None\<close> or a float that is not
  negative: it is what the first decimal number of the rating text gives, the text being
  the accessible label of the first rating element found, or the element's text where
  the label is missing or empty. Nothing bounds it by 5.
\<close>

theorem rating_nonnegative:
  "(scrape_product_details U uj c = Some p \<longrightarrow>
      Rating p = (case select_first c rating_selectors of
                    None \<Rightarrow> None
                  | Some e \<Rightarrow> first_number U (rating_text e)))
   \<and> (scrape_product_details U uj c = Some p \<and> Rating p = Some r \<longrightarrow> nonneg r)"
proof (intro conjI impI)
  assume p: "scrape_product_details U uj c = Some p"
  show "Rating p = (case select_first c rating_selectors of
                    None \<Rightarrow> None
                  | Some e \<Rightarrow> first_number U (rating_text e))"
    using scrape_product_details_fields(1) [OF p] by (simp add: scrape_rating_eq)
next
  assume "scrape_product_details U uj c = Some p \<and> Rating p = Some r"
  then have p: "scrape_product_details U uj c = Some p" and r: "Rating p = Some r"
    by simp_all
  have "(case select_first c rating_selectors of
           None \<Rightarrow> None
         | Some e \<Rightarrow> first_number U (rating_text e)) = Some r"
    using scrape_product_details_fields(1) [OF p] r by (simp add: scrape_rating_eq)
  then obtain t where "first_number U t = Some r"
    by (auto split: option.splits)
  then show "nonneg r" by (rule first_number_nonneg)
qed

lemma rated_container_record:
  "scrape_product_details sample_lib plain_urljoin rated_container = Some rated_record"
  by (simp add: record_defs rated_container_def rated_record_def sample_defs selector_defs
      text_defs sample_lib_defs py_float_def to_double_examples)

lemma starred_container_record:
  "scrape_product_details sample_lib plain_urljoin starred_container \<noteq> None"
  by (simp add: record_defs starred_container_def sample_defs selector_defs
      text_defs sample_lib_defs py_float_def)

lemma starred_container_rating:
  "select_first starred_container rating_selectors = Some (tag (ascii ''4.5 out of 5 stars'') [])"
  "rating_text (tag (ascii ''4.5 out of 5 stars'') []) = ascii ''4.5 out of 5 stars''"
  "first_number sample_lib (ascii ''4.5 out of 5 stars'') = Some (Finite 4.5)"
proof -
  show "select_first starred_container rating_selectors
        = Some (tag (ascii ''4.5 out of 5 stars'') [])"
    by (simp add: starred_container_def sample_defs selector_defs)
  show "rating_text (tag (ascii ''4.5 out of 5 stars'') []) = ascii ''4.5 out of 5 stars''"
    by (simp add: rating_text_def attr_get_def sample_defs ascii_def)
  have "first_number sample_lib (ascii ''4.5 out of 5 stars'') = Some (to_double 4.5)"
    by (simp add: first_number_def text_defs sample_lib_defs)
  then show "first_number sample_lib (ascii ''4.5 out of 5 stars'') = Some (Finite 4.5)"
    by (simp only: to_double_4_5)
qed

theorem rating_nonnegative_witness:
  "scrape_product_details sample_lib plain_urljoin starred_container \<noteq> None
   \<and> Rating (the (scrape_product_details sample_lib plain_urljoin starred_container))
       = Some (Finite 4.5)
   \<and> nonneg (Finite 4.5)"
proof -
  let ?p = "the (scrape_product_details sample_lib plain_urljoin starred_container)"
  have p: "scrape_product_details sample_lib plain_urljoin starred_container = Some ?p"
    using starred_container_record by simp
  have r: "Rating ?p = Some (Finite 4.5)"
    using rating_nonnegative [of sample_lib plain_urljoin starred_container ?p] p
    by (simp add: starred_container_rating)
  have "nonneg (Finite 4.5)"
    using rating_nonnegative [of sample_lib plain_urljoin starred_container ?p "Finite 4.5"] p r
    by blast
  with r starred_container_record show ?thesis
    by simp
qed

theorem rating_above_five:
  "map_option Rating (scrape_product_details sample_lib plain_urljoin rated_container)
     = Some (Some (Finite 12))
   \<and> \<not> (0 \<le> (12::real) \<and> (12::real) \<le> 5)"
  by (simp add: rated_container_record rated_record_def)

section \<open>The dataset and the request client\<close>

lemma astype_int_exact:
  assumes "0 \<le> n" and "n < 2 ^ 53"
  shows "astype_int P (to_double (real_of_int n)) = n"
proof -
  have "n < 2 ^ 63"
    using assms(2) by simp
  then show ?thesis
    using assms(1) by (simp add: to_double_int [OF assms] astype_int_def in_int64_def)
qed

lemma review_counts_exact:
  assumes "\<forall>v\<in>set col. case v of None \<Rightarrow> True | Some n \<Rightarrow> 0 \<le> n \<and> n < 2 ^ 53"
  shows "review_counts P col = map (\<lambda>v. case v of None \<Rightarrow> 0 | Some n \<Rightarrow> n) col"
proof -
  have fits: "list_all (\<lambda>v. case v of None \<Rightarrow> True | Some n \<Rightarrow> in_int64 n) col"
    unfolding list_all_iff
  proof
    fix v
    assume "v \<in> set col"
    with assms have a: "case v of None \<Rightarrow> True | Some n \<Rightarrow> 0 \<le> n \<and> n < 2 ^ 53"
      by blast
    show "case v of None \<Rightarrow> True | Some n \<Rightarrow> in_int64 n"
    proof (cases v)
      case None
      then show ?thesis by simp
    next
      case (Some n)
      with a have "0 \<le> n" "n < 2 ^ 53" by simp_all
      then have "0 \<le> n" "n < 2 ^ 63" by simp_all
      with Some show ?thesis by (simp add: in_int64_def)
    qed
  qed
  have cast: "map (\<lambda>v. case v of None \<Rightarrow> 0
                        | Some n \<Rightarrow> astype_int P (to_double (real_of_int n))) col
              = map (\<lambda>v. case v of None \<Rightarrow> 0 | Some n \<Rightarrow> n) col"
  proof (rule map_cong [OF refl])
    fix v
    assume "v \<in> set col"
    with assms have "case v of None \<Rightarrow> True | Some n \<Rightarrow> 0 \<le> n \<and> n < 2 ^ 53"
      by blast
    then show "(case v of None \<Rightarrow> 0 | Some n \<Rightarrow> astype_int P (to_double (real_of_int n)))
               = (case v of None \<Rightarrow> 0 | Some n \<Rightarrow> n)"
      by (cases v) (simp_all add: astype_int_exact)
  qed
  have fill: "map (fillna 0) col = map (\<lambda>v. case v of None \<Rightarrow> 0 | Some n \<Rightarrow> n) col"
    by (rule map_cong [OF refl]) (simp add: fillna_def)
  show ?thesis
    unfolding review_counts_def using fits cast fill by simp
qed

lemma length_review_counts_exact:
  assumes "\<forall>v\<in>set col. case v of None \<Rightarrow> True | Some n \<Rightarrow> 0 \<le> n \<and> n < 2 ^ 53"
  shows "length (review_counts P col) = length col"
  by (simp add: review_counts_exact [OF assms])






lemma attempt_once_503:
  assumes "http_get E url (gets s) = Response resp" and "status_code resp = 503"
  shows "attempt_once E url max_retries attempt s =
     (None,
      s\<lparr>gets := Suc (gets s), draws := Suc (Suc (draws s)),
        trace := trace s @
          [Sleep (2 + 3 * random E (draws s)), Get url,
           Sleep (2 ^ attempt + (1 + 2 * random E (Suc (draws s))))]\<rparr>)"
  using assms
  by (simp add: attempt_once_def get_random_delay_def uniform_def session_get_def sleep_def
      emit_def)

text \<open>
  C5. Where every request for the address is answered with status 503,
  \<^verbatim>\<open>make_request_with_retry\<close> sends exactly three requests, sleeps
  \<open>2 ^ attempt\<close> plus a number drawn by \<^verbatim>\<open>uniform(1, 3)\<close> after each of them (and the
  random delay before each), and returns \<^verbatim>\<open>None\<close>.
\<close>

theorem persistent_503_three_attempts:
  assumes "\<forall>n. \<exists>resp. http_get E url n = Response resp \<and> status_code resp = 503"
  shows "make_request_with_retry E url 3 s =
     (None,
      s\<lparr>gets := gets s + 3, draws := draws s + 6,
        trace := trace s @
          [Sleep (2 + 3 * random E (draws s)), Get url,
           Sleep (2 ^ 0 + (1 + 2 * random E (draws s + 1))),
           Sleep (2 + 3 * random E (draws s + 2)), Get url,
           Sleep (2 ^ 1 + (1 + 2 * random E (draws s + 3))),
           Sleep (2 + 3 * random E (draws s + 4)), Get url,
           Sleep (2 ^ 2 + (1 + 2 * random E (draws s + 5)))]\<rparr>)"
proof -
  have step: "attempt_once E url mr k t =
     (None,
      t\<lparr>gets := Suc (gets t), draws := Suc (Suc (draws t)),
        trace := trace t @
          [Sleep (2 + 3 * random E (draws t)), Get url,
           Sleep (2 ^ k + (1 + 2 * random E (Suc (draws t))))]\<rparr>)" for mr k t
  proof -
    from assms obtain resp where "http_get E url (gets t) = Response resp" "status_code resp = 503"
      by blast
    then show ?thesis by (rule attempt_once_503)
  qed
  have up: "[0..<3] = [0, 1, 2]"
    by (simp add: upt_rec)
  show ?thesis
    unfolding make_request_with_retry_def up
    by (simp add: step numeral_eq_Suc)
qed

theorem persistent_503_three_attempts_witness:
  "(\<forall>n. \<exists>resp. http_get env_503 (page_url 1) n = Response resp \<and> status_code resp = 503)
   \<and> make_request_with_retry env_503 (page_url 1) 3 init =
       (None,
        \<lparr>products_data = [], gets = 3, draws = 6,
         trace = [Sleep 3.5, Get (page_url 1), Sleep 3,
                  Sleep 3.5, Get (page_url 1), Sleep 4,
                  Sleep 3.5, Get (page_url 1), Sleep 6]\<rparr>)"
proof -
  have h: "\<forall>n. \<exists>resp. http_get env_503 (page_url 1) n = Response resp \<and> status_code resp = 503"
    by (simp add: env_503_def)
  from persistent_503_three_attempts [OF h, of init] h show ?thesis
    by (simp add: env_503_def init_def)
qed

section \<open>Invariants of the pagination loop\<close>

lemma process_containers_frame:
  "page_num (process_containers E mx cs L) = page_num L
   \<and> consecutive_failures (process_containers E mx cs L) = consecutive_failures L
   \<and> trace (self (process_containers E mx cs L)) = trace (self L)
   \<and> gets (self (process_containers E mx cs L)) = gets (self L)
   \<and> draws (self (process_containers E mx cs L)) = draws (self L)"
  by (induction cs arbitrary: L) (simp_all split: option.splits)

lemma process_containers_appends:
  "\<exists>new. products_data (self (process_containers E mx cs L)) = products_data (self L) @ new
     \<and> (\<forall>r\<in>set new. Product_Name r \<noteq> [])
     \<and> products_scraped (process_containers E mx cs L) = products_scraped L + int (length new)
     \<and> (products_scraped L \<le> mx \<longrightarrow> products_scraped (process_containers E mx cs L) \<le> mx)"
proof (induction cs arbitrary: L)
  case Nil
  show ?case by simp
next
  case (Cons c cs)
  show ?case
  proof (cases "products_scraped L \<ge> mx")
    case True
    then show ?thesis by simp
  next
    case False
    show ?thesis
    proof (cases "scrape_product_details (lib E) (urljoin E) c")
      case None
      with False Cons.IH [of L] show ?thesis by simp
    next
      case (Some p)
      show ?thesis
      proof (cases "Product_Name p = []")
        case True
        with False Some Cons.IH [of L] show ?thesis by simp
      next
        case named: False
        let ?L = "L\<lparr>self := (self L)\<lparr>products_data := products_data (self L) @ [p]\<rparr>,
                     products_scraped := products_scraped L + 1\<rparr>"
        from Cons.IH [of ?L] obtain new where
          n: "products_data (self (process_containers E mx cs ?L))
                = products_data (self ?L) @ new"
             "\<forall>r\<in>set new. Product_Name r \<noteq> []"
             "products_scraped (process_containers E mx cs ?L)
                = products_scraped ?L + int (length new)"
             "products_scraped ?L \<le> mx \<longrightarrow> products_scraped (process_containers E mx cs ?L) \<le> mx"
          by blast
        have e: "process_containers E mx (c # cs) L = process_containers E mx cs ?L"
          using False Some named by simp
        have "products_data (self (process_containers E mx (c # cs) L))
                = products_data (self L) @ (p # new)"
          unfolding e using n(1) by simp
        moreover have "\<forall>r\<in>set (p # new). Product_Name r \<noteq> []"
          using n(2) named by simp
        moreover have "products_scraped (process_containers E mx (c # cs) L)
                = products_scraped L + int (length (p # new))"
          unfolding e using n(3) by simp
        moreover have "products_scraped L \<le> mx
                 \<longrightarrow> products_scraped (process_containers E mx (c # cs) L) \<le> mx"
          unfolding e using n(4) False by simp
        ultimately show ?thesis by blast
      qed
    qed
  qed
qed

lemma attempt_once_frame:
  "products_data (snd (attempt_once E url mr k s)) = products_data s
   \<and> (\<exists>b. trace (snd (attempt_once E url mr k s)) = trace s @ b \<and> (\<forall>e\<in>set b. \<not> is_verdict e))"
  by (simp add: attempt_once_def get_random_delay_def uniform_def session_get_def sleep_def
      emit_def split: get_result.splits)

lemma retry_loop_frame:
  "products_data (snd (retry_loop E url mr ks s)) = products_data s
   \<and> (\<exists>b. trace (snd (retry_loop E url mr ks s)) = trace s @ b \<and> (\<forall>e\<in>set b. \<not> is_verdict e))"
proof (induction ks arbitrary: s)
  case Nil
  show ?case by simp
next
  case (Cons k ks)
  obtain r s1 where a: "attempt_once E url mr k s = (r, s1)"
    by (cases "attempt_once E url mr k s")
  from attempt_once_frame [of E url mr k s] a obtain b1 where
    b1: "products_data s1 = products_data s" "trace s1 = trace s @ b1"
        "\<forall>e\<in>set b1. \<not> is_verdict e"
    by auto
  show ?case
  proof (cases r)
    case None
    from Cons.IH [of s1] obtain b2 where
      b2: "products_data (snd (retry_loop E url mr ks s1)) = products_data s1"
          "trace (snd (retry_loop E url mr ks s1)) = trace s1 @ b2"
          "\<forall>e\<in>set b2. \<not> is_verdict e"
      by blast
    have "trace (snd (retry_loop E url mr (k # ks) s)) = trace s @ (b1 @ b2)"
      using a None b1 b2 by simp
    moreover have "\<forall>e\<in>set (b1 @ b2). \<not> is_verdict e"
      using b1 b2 by auto
    moreover have "products_data (snd (retry_loop E url mr (k # ks) s)) = products_data s"
      using a None b1 b2 by simp
    ultimately show ?thesis by blast
  next
    case (Some resp)
    with a b1 show ?thesis by auto
  qed
qed

lemma make_request_frame:
  "products_data (snd (make_request_with_retry E url mr s)) = products_data s
   \<and> (\<exists>b. trace (snd (make_request_with_retry E url mr s)) = trace s @ b
          \<and> (\<forall>e\<in>set b. \<not> is_verdict e))"
  unfolding make_request_with_retry_def by (rule retry_loop_frame)

lemma page_body_data:
  "\<exists>new. products_data (self (page_body E mx L)) = products_data (self L) @ new
     \<and> (\<forall>r\<in>set new. Product_Name r \<noteq> [])
     \<and> products_scraped (page_body E mx L) = products_scraped L + int (length new)
     \<and> (products_scraped L \<le> mx \<longrightarrow> products_scraped (page_body E mx L) \<le> mx)"
proof -
  obtain r s where m: "make_request_with_retry E (page_url (page_num L)) 3 (self L) = (r, s)"
    by (cases "make_request_with_retry E (page_url (page_num L)) 3 (self L)")
  have pd: "products_data s = products_data (self L)"
    using make_request_frame [of E "page_url (page_num L)" 3 "self L"] m by simp
  have failed: ?thesis if "page_body E mx L = page_failed (L\<lparr>self := s\<rparr>)"
  proof -
    have "products_data (self (page_body E mx L)) = products_data (self L)"
      unfolding that by (simp add: page_failed_def emit_def pd)
    moreover have "products_scraped (page_body E mx L) = products_scraped L"
      unfolding that by (simp add: page_failed_def)
    ultimately show ?thesis
      by (intro exI [of _ "[]"]) simp
  qed
  show ?thesis
  proof (cases r)
    case None
    with m show ?thesis by (intro failed) (simp add: page_body_def)
  next
    case (Some resp)
    show ?thesis
    proof (cases "content resp")
      case None
      with m Some show ?thesis by (intro failed) (simp add: page_body_def)
    next
      case page: (Some page)
      show ?thesis
      proof (cases "select_containers page product_selectors = []")
        case True
        with m Some page show ?thesis by (intro failed) (simp add: page_body_def)
      next
        case False
        let ?L0 = "L\<lparr>self := emit (PageFound (page_num L)) s, consecutive_failures := 0\<rparr>"
        let ?L1 = "process_containers E mx (select_containers page product_selectors) ?L0"
        have b: "page_body E mx L = ?L1\<lparr>page_num := page_num ?L1 + 1\<rparr>"
          using m Some page False by (simp add: page_body_def Let_def)
        from process_containers_appends [of E mx "select_containers page product_selectors" ?L0]
        obtain new where
          n: "products_data (self ?L1) = products_data (self ?L0) @ new"
             "\<forall>r\<in>set new. Product_Name r \<noteq> []"
             "products_scraped ?L1 = products_scraped ?L0 + int (length new)"
             "products_scraped ?L0 \<le> mx \<longrightarrow> products_scraped ?L1 \<le> mx"
          by blast
        have "products_data (self (page_body E mx L)) = products_data (self L) @ new"
          unfolding b using n(1) by (simp add: emit_def pd)
        moreover have "products_scraped (page_body E mx L) = products_scraped L + int (length new)"
          unfolding b using n(3) by simp
        moreover have "products_scraped L \<le> mx \<longrightarrow> products_scraped (page_body E mx L) \<le> mx"
          unfolding b using n(4) by simp
        ultimately show ?thesis
          using n(2) by blast
      qed
    qed
  qed
qed

lemma page_body_trace:
  "\<exists>b. trace (self (page_body E mx L)) =
          trace (self L) @ b @
            [if page_found E L then PageFound (page_num L) else PageFailed (page_num L)]
     \<and> (\<forall>e\<in>set b. \<not> is_verdict e)"
proof -
  obtain r s where m: "make_request_with_retry E (page_url (page_num L)) 3 (self L) = (r, s)"
    by (cases "make_request_with_retry E (page_url (page_num L)) 3 (self L)")
  from make_request_frame [of E "page_url (page_num L)" 3 "self L"] m obtain b where
    b: "trace s = trace (self L) @ b" "\<forall>e\<in>set b. \<not> is_verdict e"
    by auto
  have "trace (self (page_body E mx L)) =
          trace s @ [if page_found E L then PageFound (page_num L) else PageFailed (page_num L)]"
    using m
    by (simp add: page_body_def page_found_def page_failed_def emit_def Let_def
        process_containers_frame split: option.splits)
  with b show ?thesis by auto
qed

lemma page_body_failures:
  "consecutive_failures (page_body E mx L) =
     (if page_found E L then 0 else consecutive_failures L + 1)"
proof -
  obtain r s where m: "make_request_with_retry E (page_url (page_num L)) 3 (self L) = (r, s)"
    by (cases "make_request_with_retry E (page_url (page_num L)) 3 (self L)")
  then show ?thesis
    by (simp add: page_body_def page_found_def page_failed_def Let_def
        process_containers_frame split: option.splits)
qed

lemma trailing_failures_quiet:
  "\<forall>e\<in>set b. \<not> is_verdict e \<Longrightarrow> trailing_failures (evs @ b) = trailing_failures evs"
proof -
  assume "\<forall>e\<in>set b. \<not> is_verdict e"
  then have "filter is_verdict b = []"
    by (simp add: filter_empty_conv)
  then show ?thesis
    by (simp add: trailing_failures_def)
qed

lemma scrape_loop_data:
  "\<exists>new. products_data (self (scrape_loop E mp mx L)) = products_data (self L) @ new
     \<and> (\<forall>r\<in>set new. Product_Name r \<noteq> [])
     \<and> products_scraped (scrape_loop E mp mx L) = products_scraped L + int (length new)
     \<and> (products_scraped L \<le> mx \<longrightarrow> products_scraped (scrape_loop E mp mx L) \<le> mx)"
proof (induction E mp mx L rule: scrape_loop.induct)
  case (1 E mp mx L)
  show ?case
  proof (cases "loop_cond mp mx L")
    case False
    then have "scrape_loop E mp mx L = L"
      by (subst scrape_loop.simps) simp
    then show ?thesis
      by (intro exI [of _ "[]"]) simp
  next
    case True
    let ?B = "page_body E mx L"
    have e: "scrape_loop E mp mx L = scrape_loop E mp mx ?B"
      using True by (subst scrape_loop.simps) simp
    from page_body_data [of E mx L] obtain n1 where
      n1: "products_data (self ?B) = products_data (self L) @ n1"
          "\<forall>r\<in>set n1. Product_Name r \<noteq> []"
          "products_scraped ?B = products_scraped L + int (length n1)"
          "products_scraped L \<le> mx \<longrightarrow> products_scraped ?B \<le> mx"
      by blast
    from "1.IH" [OF True] obtain n2 where
      n2: "products_data (self (scrape_loop E mp mx ?B)) = products_data (self ?B) @ n2"
          "\<forall>r\<in>set n2. Product_Name r \<noteq> []"
          "products_scraped (scrape_loop E mp mx ?B) = products_scraped ?B + int (length n2)"
          "products_scraped ?B \<le> mx \<longrightarrow> products_scraped (scrape_loop E mp mx ?B) \<le> mx"
      by blast
    have "products_data (self (scrape_loop E mp mx L)) = products_data (self L) @ (n1 @ n2)"
      unfolding e using n1(1) n2(1) by simp
    moreover have "\<forall>r\<in>set (n1 @ n2). Product_Name r \<noteq> []"
      using n1(2) n2(2) by auto
    moreover have "products_scraped (scrape_loop E mp mx L)
                   = products_scraped L + int (length (n1 @ n2))"
      unfolding e using n1(3) n2(3) by simp
    moreover have "products_scraped L \<le> mx \<longrightarrow> products_scraped (scrape_loop E mp mx L) \<le> mx"
      unfolding e using n1(4) n2(4) by simp
    ultimately show ?thesis by blast
  qed
qed

lemma settled_step:
  assumes q: "settled evs" and lt: "trailing_failures evs < 3"
    and b: "\<forall>e\<in>set b. \<not> is_verdict e"
  shows "settled (evs @ b @ [v])"
  unfolding settled_def
proof (intro allI impI)
  fix t1 t2
  assume a: "evs @ b @ [v] = t1 @ t2 \<and> 3 \<le> trailing_failures t1"
  show "t2 = []"
  proof (rule ccontr)
    assume ne: "t2 \<noteq> []"
    then have t2: "t2 = butlast t2 @ [last t2]" by simp
    have "(evs @ b) @ [v] = (t1 @ butlast t2) @ [last t2]"
      using a t2 by (metis append.assoc)
    then have eb: "evs @ b = t1 @ butlast t2" by simp
    then consider us where "evs = t1 @ us" | us where "t1 = evs @ us" "b = us @ butlast t2"
      by (auto simp: append_eq_append_conv2)
    then show False
    proof cases
      case 1
      with q a have "us = []" by (auto simp: settled_def)
      with 1 have "t1 = evs" by simp
      with a lt show False by simp
    next
      case 2
      then have "\<forall>e\<in>set us. \<not> is_verdict e" using b by auto
      then have "trailing_failures t1 = trailing_failures evs"
        unfolding 2(1) by (rule trailing_failures_quiet)
      with a lt show False by simp
    qed
  qed
qed

lemma scrape_loop_settled:
  assumes "trace (self L) = T0 @ evs"
    and "consecutive_failures L = int (trailing_failures evs)"
    and "settled evs"
  shows "\<exists>evs'. trace (self (scrape_loop E mp mx L)) = T0 @ evs' \<and> settled evs'"
  using assms
proof (induction E mp mx L arbitrary: evs rule: scrape_loop.induct)
  case (1 E mp mx L)
  show ?case
  proof (cases "loop_cond mp mx L")
    case False
    then have "scrape_loop E mp mx L = L"
      by (subst scrape_loop.simps) simp
    with "1.prems" show ?thesis by auto
  next
    case True
    let ?B = "page_body E mx L"
    let ?v = "if page_found E L then PageFound (page_num L) else PageFailed (page_num L)"
    have e: "scrape_loop E mp mx L = scrape_loop E mp mx ?B"
      using True by (subst scrape_loop.simps) simp
    from page_body_trace [of E mx L] obtain b where
      b: "trace (self ?B) = trace (self L) @ b @ [?v]" "\<forall>e\<in>set b. \<not> is_verdict e"
      by blast
    have lt: "trailing_failures evs < 3"
      using True "1.prems"(2) by (simp add: loop_cond_def)
    have t: "trace (self ?B) = T0 @ (evs @ b @ [?v])"
      using b(1) "1.prems"(1) by simp
    have tf: "trailing_failures (evs @ b @ [?v])
              = (if page_found E L then 0 else Suc (trailing_failures evs))"
      using trailing_failures_quiet [OF b(2), of evs]
      by (simp add: trailing_failures_def)
    have c: "consecutive_failures ?B = int (trailing_failures (evs @ b @ [?v]))"
      unfolding tf using "1.prems"(2) by (simp add: page_body_failures)
    have s: "settled (evs @ b @ [?v])"
      by (rule settled_step [OF "1.prems"(3) lt b(2)])
    from "1.IH" [OF True t c s] show ?thesis
      unfolding e .
  qed
qed

section \<open>Sample runs\<close>

lemma nameless_container_record:
  "scrape_product_details sample_lib plain_urljoin nameless_container =
     Some \<lparr>Product_Name = [], Product_URL = [], Price = Some (Finite 499), Rating = None,
           Number_of_Reviews = None\<rparr>"
  by (simp add: record_defs nameless_container_def sample_defs selector_defs
      text_defs sample_lib_defs py_float_def to_double_examples)

lemma shop_request:
  "make_request_with_retry env_shop url 3 s =
     (Some \<lparr>status_code = 200, content = Some shop_page\<rparr>,
      s\<lparr>gets := Suc (gets s), draws := Suc (draws s), trace := trace s @ [Sleep 2, Get url]\<rparr>)"
  by (simp add: make_request_with_retry_def upt_rec attempt_once_def get_random_delay_def
      uniform_def session_get_def sleep_def emit_def env_shop_def)

lemma shop_containers:
  "select_containers shop_page product_selectors
   = [counted_container, nameless_container, rated_container]"
  by (simp add: product_selectors_def shop_page_def)

lemma shop_urljoin: "urljoin env_shop = plain_urljoin"
  by (simp add: env_shop_def)

lemma shop_lib: "lib env_shop = sample_lib"
  by (simp add: env_shop_def)

lemmas shop_eval = scrape_toys_category_def loop_cond_def page_body_def shop_request
  shop_containers shop_urljoin shop_lib emit_def Let_def counted_container_record
  nameless_container_record rated_container_record

lemma shop_first_run:
  "scrape_toys_category env_shop 1 5 init =
     ([counted_record, rated_record],
      \<lparr>products_data = [counted_record, rated_record], gets = 1, draws = 1,
       trace = [Sleep 2, Get (page_url 1), PageFound 1]\<rparr>)"
  unfolding scrape_toys_category_def
  apply (subst scrape_loop.simps)
  apply (subst scrape_loop.simps)
  apply (simp add: shop_eval init_def counted_record_def rated_record_def ascii_def)
  done

lemma shop_one_first:
  "scrape_toys_category env_shop 1 1 init =
     ([counted_record],
      \<lparr>products_data = [counted_record], gets = 1, draws = 1,
       trace = [Sleep 2, Get (page_url 1), PageFound 1]\<rparr>)"
  unfolding scrape_toys_category_def
  apply (subst scrape_loop.simps)
  apply (subst scrape_loop.simps)
  apply (simp add: shop_eval init_def counted_record_def rated_record_def ascii_def)
  done

lemma shop_one_second:
  "scrape_toys_category env_shop 1 1
     \<lparr>products_data = [counted_record], gets = 1, draws = 1,
      trace = [Sleep 2, Get (page_url 1), PageFound 1]\<rparr> =
     ([counted_record, counted_record],
      \<lparr>products_data = [counted_record, counted_record], gets = 2, draws = 2,
       trace = [Sleep 2, Get (page_url 1), PageFound 1,
                Sleep 2, Get (page_url 1), PageFound 1]\<rparr>)"
  unfolding scrape_toys_category_def
  apply (subst scrape_loop.simps)
  apply (subst scrape_loop.simps)
  apply (simp add: shop_eval counted_record_def rated_record_def ascii_def)
  done

lemma shop_two_first:
  "scrape_toys_category env_shop 1 2 init =
     ([counted_record, rated_record],
      \<lparr>products_data = [counted_record, rated_record], gets = 1, draws = 1,
       trace = [Sleep 2, Get (page_url 1), PageFound 1]\<rparr>)"
  unfolding scrape_toys_category_def
  apply (subst scrape_loop.simps)
  apply (subst scrape_loop.simps)
  apply (simp add: shop_eval init_def counted_record_def rated_record_def ascii_def)
  done

lemma shop_two_second:
  "scrape_toys_category env_shop 1 2
     \<lparr>products_data = [counted_record, rated_record], gets = 1, draws = 1,
      trace = [Sleep 2, Get (page_url 1), PageFound 1]\<rparr> =
     ([counted_record, rated_record, counted_record, rated_record],
      \<lparr>products_data = [counted_record, rated_record, counted_record, rated_record],
       gets = 2, draws = 2,
       trace = [Sleep 2, Get (page_url 1), PageFound 1,
                Sleep 2, Get (page_url 1), PageFound 1]\<rparr>)"
  unfolding scrape_toys_category_def
  apply (subst scrape_loop.simps)
  apply (subst scrape_loop.simps)
  apply (simp add: shop_eval counted_record_def rated_record_def ascii_def)
  done

lemma request_503:
  "make_request_with_retry env_503 url 3 s =
     (None,
      s\<lparr>gets := gets s + 3, draws := draws s + 6,
        trace := trace s @
          [Sleep 3.5, Get url, Sleep 3, Sleep 3.5, Get url, Sleep 4, Sleep 3.5, Get url, Sleep 6]\<rparr>)"
  by (simp add: make_request_with_retry_def upt_rec attempt_once_def get_random_delay_def
      uniform_def session_get_def sleep_def emit_def env_503_def)

lemma run_503:
  "trace (snd (scrape_toys_category env_503 10 5 init)) =
     [Sleep 3.5, Get (page_url 1), Sleep 3, Sleep 3.5, Get (page_url 1), Sleep 4,
      Sleep 3.5, Get (page_url 1), Sleep 6, PageFailed 1,
      Sleep 3.5, Get (page_url 2), Sleep 3, Sleep 3.5, Get (page_url 2), Sleep 4,
      Sleep 3.5, Get (page_url 2), Sleep 6, PageFailed 2,
      Sleep 3.5, Get (page_url 3), Sleep 3, Sleep 3.5, Get (page_url 3), Sleep 4,
      Sleep 3.5, Get (page_url 3), Sleep 6, PageFailed 3]"
  unfolding scrape_toys_category_def
  apply (subst scrape_loop.simps)
  apply (subst scrape_loop.simps)
  apply (subst scrape_loop.simps)
  apply (subst scrape_loop.simps)
  apply (simp add: loop_cond_def page_body_def page_failed_def request_503 emit_def Let_def
      init_def)
  done

section \<open>What a run returns\<close>

lemma scrape_toys_category_appends:
  "\<exists>new. fst (scrape_toys_category E mp mx s) = products_data s @ new
     \<and> products_data (snd (scrape_toys_category E mp mx s)) = products_data s @ new
     \<and> (\<forall>r\<in>set new. Product_Name r \<noteq> [])
     \<and> int (length new) \<le> max 0 mx"
proof -
  let ?L = "\<lparr>page_num = 1, products_scraped = 0, consecutive_failures = 0, self = s\<rparr>"
  from scrape_loop_data [of E mp mx ?L] obtain new where
    n: "products_data (self (scrape_loop E mp mx ?L)) = products_data (self ?L) @ new"
       "\<forall>r\<in>set new. Product_Name r \<noteq> []"
       "products_scraped (scrape_loop E mp mx ?L) = products_scraped ?L + int (length new)"
       "products_scraped ?L \<le> mx \<longrightarrow> products_scraped (scrape_loop E mp mx ?L) \<le> mx"
    by blast
  have "int (length new) \<le> max 0 mx"
  proof (cases "0 \<le> mx")
    case True
    with n(3,4) show ?thesis by simp
  next
    case False
    then have "\<not> loop_cond mp mx ?L"
      by (simp add: loop_cond_def)
    then have "scrape_loop E mp mx ?L = ?L"
      by (subst scrape_loop.simps) simp
    with n(1) show ?thesis by simp
  qed
  with n(1,2) show ?thesis
    by (simp add: scrape_toys_category_def Let_def)
qed

text \<open>
  C1. A record whose name is the empty text is never appended: what a run appends to
  the accumulator has non-empty names only, so a run keeps the accumulator free of
  empty names, and every record a fresh scraper returns has a non-empty name.
\<close>

theorem empty_name_never_collected:
  "(\<exists>new. fst (scrape_toys_category E mp mx s) = products_data s @ new
       \<and> (\<forall>r\<in>set new. Product_Name r \<noteq> []))
   \<and> ((\<forall>r\<in>set (products_data s). Product_Name r \<noteq> []) \<longrightarrow>
        (\<forall>r\<in>set (fst (scrape_toys_category E mp mx s)). Product_Name r \<noteq> []))
   \<and> (\<forall>r\<in>set (fst (scrape_toys_category E mp mx init)). Product_Name r \<noteq> [])"
proof -
  from scrape_toys_category_appends [of E mp mx s] obtain new where
    n: "fst (scrape_toys_category E mp mx s) = products_data s @ new"
       "\<forall>r\<in>set new. Product_Name r \<noteq> []"
    by blast
  from scrape_toys_category_appends [of E mp mx init] obtain new0 where
    n0: "fst (scrape_toys_category E mp mx init) = products_data init @ new0"
        "\<forall>r\<in>set new0. Product_Name r \<noteq> []"
    by blast
  have "\<forall>r\<in>set (fst (scrape_toys_category E mp mx init)). Product_Name r \<noteq> []"
    using n0 by (simp add: init_def)
  moreover have "(\<forall>r\<in>set (products_data s). Product_Name r \<noteq> []) \<longrightarrow>
        (\<forall>r\<in>set (fst (scrape_toys_category E mp mx s)). Product_Name r \<noteq> [])"
    using n by auto
  ultimately show ?thesis
    using n by blast
qed

theorem empty_name_never_collected_witness:
  "map_option Product_Name (scrape_product_details sample_lib plain_urljoin nameless_container)
     = Some []
   \<and> fst (scrape_toys_category env_shop 1 5 init) = [counted_record, rated_record]
   \<and> Product_Name counted_record \<noteq> [] \<and> Product_Name rated_record \<noteq> []"
  using empty_name_never_collected [of env_shop 1 5 init]
  by (simp add: nameless_container_record shop_first_run)

text \<open>
  C4, as the code has it. A run appends at most \<^verbatim>\<open>max_products\<close> records (none where
  \<^verbatim>\<open>max_products\<close> is not positive) to what the scraper held before, and returns the
  whole accumulator; so a fresh scraper called with a \<^verbatim>\<open>max_products\<close> that is not
  negative returns at most \<^verbatim>\<open>max_products\<close> records.
\<close>

theorem returned_at_most_held_plus_max:
  "int (length (fst (scrape_toys_category E mp mx s)))
     \<le> int (length (products_data s)) + max 0 mx
   \<and> (0 \<le> mx \<longrightarrow> int (length (fst (scrape_toys_category E mp mx init))) \<le> mx)"
proof -
  from scrape_toys_category_appends [of E mp mx s] obtain new where
    n: "fst (scrape_toys_category E mp mx s) = products_data s @ new"
       "int (length new) \<le> max 0 mx"
    by blast
  from scrape_toys_category_appends [of E mp mx init] obtain new0 where
    n0: "fst (scrape_toys_category E mp mx init) = products_data init @ new0"
        "int (length new0) \<le> max 0 mx"
    by blast
  have "int (length (fst (scrape_toys_category E mp mx s)))
          \<le> int (length (products_data s)) + max 0 mx"
    using n by simp
  moreover have "0 \<le> mx \<longrightarrow> int (length (fst (scrape_toys_category E mp mx init))) \<le> mx"
    using n0 by (auto simp: init_def)
  ultimately show ?thesis by blast
qed

theorem returned_at_most_held_plus_max_witness:
  "(0::int) \<le> 1 \<and> int (length (fst (scrape_toys_category env_shop 1 1 init))) \<le> 1
   \<and> fst (scrape_toys_category env_shop 1 1 init) = [counted_record]"
  using returned_at_most_held_plus_max [of env_shop 1 1 init]
  by (simp add: shop_one_first)

theorem second_run_exceeds_max_products:
  "length (fst (scrape_toys_category env_shop 1 1
                  (snd (scrape_toys_category env_shop 1 1 init)))) = 2
   \<and> \<not> (2 \<le> (1::int))"
  unfolding shop_one_first snd_conv shop_one_second fst_conv by simp

text \<open>
  C10. \<^verbatim>\<open>scrape_toys_category\<close> never clears \<^verbatim>\<open>products_data\<close>: a run returns the
  accumulator, which is what it held before followed by the records of this run. A
  second call on the same scraper so returns the records of the first call followed by
  new ones, and its result can be longer than its \<^verbatim>\<open>max_products\<close>: two calls with
  \<^verbatim>\<open>max_products = 2\<close> on the sample shop return four records.
\<close>

theorem accumulator_never_cleared:
  "(\<exists>new. fst (scrape_toys_category E mp mx s) = products_data s @ new
       \<and> products_data (snd (scrape_toys_category E mp mx s)) = products_data s @ new)
   \<and> (\<exists>new. fst (scrape_toys_category E' mp' mx' (snd (scrape_toys_category E mp mx s)))
              = fst (scrape_toys_category E mp mx s) @ new)
   \<and> fst (scrape_toys_category env_shop 1 2 (snd (scrape_toys_category env_shop 1 2 init)))
       = [counted_record, rated_record, counted_record, rated_record]
   \<and> int (length (fst (scrape_toys_category env_shop 1 2
                          (snd (scrape_toys_category env_shop 1 2 init))))) > 2"
proof -
  from scrape_toys_category_appends [of E mp mx s] obtain new where
    n: "fst (scrape_toys_category E mp mx s) = products_data s @ new"
       "products_data (snd (scrape_toys_category E mp mx s)) = products_data s @ new"
    by blast
  from scrape_toys_category_appends [of E' mp' mx' "snd (scrape_toys_category E mp mx s)"]
  obtain new' where
    "fst (scrape_toys_category E' mp' mx' (snd (scrape_toys_category E mp mx s)))
       = products_data (snd (scrape_toys_category E mp mx s)) @ new'"
    by blast
  then have "fst (scrape_toys_category E' mp' mx' (snd (scrape_toys_category E mp mx s)))
       = fst (scrape_toys_category E mp mx s) @ new'"
    using n by simp
  moreover have "fst (scrape_toys_category env_shop 1 2
                        (snd (scrape_toys_category env_shop 1 2 init)))
       = [counted_record, rated_record, counted_record, rated_record]"
    unfolding shop_two_first snd_conv shop_two_second fst_conv by (rule refl)
  ultimately show ?thesis
    using n by auto
qed

section \<open>The circuit breaker\<close>

lemma attempt_once_gets:
  "\<exists>b b'. trace (snd (attempt_once E url mr k s)) = trace s @ b @ Get url # b'"
  by (rule exI [of _ "[Sleep (fst (get_random_delay E s))]"])
     (auto simp: attempt_once_def get_random_delay_def uniform_def session_get_def sleep_def
        emit_def split: get_result.splits)

lemma make_request_gets:
  "\<exists>b1 b2. trace (snd (make_request_with_retry E url 3 s)) = trace s @ b1 @ Get url # b2"
proof -
  have up: "[0..<3] = [0, 1, 2]"
    by (simp add: upt_rec)
  obtain r s1 where a: "attempt_once E url 3 0 s = (r, s1)"
    by (cases "attempt_once E url 3 0 s")
  from attempt_once_gets [of E url 3 0 s] a obtain b b' where
    t1: "trace s1 = trace s @ b @ Get url # b'"
    by auto
  show ?thesis
  proof (cases r)
    case (Some resp)
    then have "snd (make_request_with_retry E url 3 s) = s1"
      unfolding make_request_with_retry_def up using a by simp
    with t1 show ?thesis by blast
  next
    case None
    then have "snd (make_request_with_retry E url 3 s) = snd (retry_loop E url 3 [1, 2] s1)"
      unfolding make_request_with_retry_def up using a by simp
    moreover from retry_loop_frame [of E url 3 "[1, 2]" s1] obtain c where
      "trace (snd (retry_loop E url 3 [1, 2] s1)) = trace s1 @ c"
      by blast
    ultimately have "trace (snd (make_request_with_retry E url 3 s))
                     = trace s @ b @ Get url # (b' @ c)"
      using t1 by simp
    then show ?thesis by blast
  qed
qed

lemma page_body_fetches:
  "\<exists>b1 b2. trace (self (page_body E mx L))
             = trace (self L) @ b1 @ Get (page_url (page_num L)) # b2"
proof -
  obtain r s where m: "make_request_with_retry E (page_url (page_num L)) 3 (self L) = (r, s)"
    by (cases "make_request_with_retry E (page_url (page_num L)) 3 (self L)")
  from make_request_gets [of E "page_url (page_num L)" "self L"] m obtain b1 b2 where
    g: "trace s = trace (self L) @ b1 @ Get (page_url (page_num L)) # b2"
    by auto
  have "\<exists>v. trace (self (page_body E mx L)) = trace s @ [v]"
    using m
    by (simp add: page_body_def page_failed_def emit_def Let_def process_containers_frame
        split: option.splits)
  then obtain v where "trace (self (page_body E mx L)) = trace s @ [v]"
    by blast
  with g have "trace (self (page_body E mx L))
               = trace (self L) @ b1 @ Get (page_url (page_num L)) # (b2 @ [v])"
    by simp
  then show ?thesis by blast
qed

lemma settled_Nil: "settled []"
  by (simp add: settled_def trailing_failures_def)

text \<open>
  C3. The loop runs its body exactly while the page number is at most \<^verbatim>\<open>max_pages\<close>,
  fewer than \<^verbatim>\<open>max_products\<close> records were collected in this run and fewer than three
  pages failed in a row; each pass of the body requests its page; a page that is found
  sets the failure counter to 0 and any other adds 1 to it. In the events of a run,
  nothing follows a point where the verdicts end with three failures in a row: no
  further page is requested, whatever \<^verbatim>\<open>max_pages\<close> is.
\<close>

theorem pagination_stops_after_three_failures:
  "scrape_loop E mp mx L =
     (if page_num L \<le> mp \<and> products_scraped L < mx \<and> consecutive_failures L < 3
      then scrape_loop E mp mx (page_body E mx L) else L)
   \<and> (\<exists>b1 b2. trace (self (page_body E mx L))
                 = trace (self L) @ b1 @ Get (page_url (page_num L)) # b2)
   \<and> consecutive_failures (page_body E mx L)
       = (if page_found E L then 0 else consecutive_failures L + 1)
   \<and> (\<exists>evs. trace (snd (scrape_toys_category E mp mx s)) = trace s @ evs
         \<and> (\<forall>t1 t2. evs = t1 @ t2 \<and> 3 \<le> trailing_failures t1 \<longrightarrow> t2 = []))"
proof (intro conjI)
  show "scrape_loop E mp mx L =
     (if page_num L \<le> mp \<and> products_scraped L < mx \<and> consecutive_failures L < 3
      then scrape_loop E mp mx (page_body E mx L) else L)"
    by (subst scrape_loop.simps) (simp add: loop_cond_def)
  show "\<exists>b1 b2. trace (self (page_body E mx L))
                 = trace (self L) @ b1 @ Get (page_url (page_num L)) # b2"
    by (rule page_body_fetches)
  show "consecutive_failures (page_body E mx L)
       = (if page_found E L then 0 else consecutive_failures L + 1)"
    by (rule page_body_failures)
  let ?L = "\<lparr>page_num = 1, products_scraped = 0, consecutive_failures = 0, self = s\<rparr>"
  have "\<exists>evs'. trace (self (scrape_loop E mp mx ?L)) = trace s @ evs' \<and> settled evs'"
    by (rule scrape_loop_settled [where evs = "[]"])
       (simp_all add: settled_Nil trailing_failures_def)
  then show "\<exists>evs. trace (snd (scrape_toys_category E mp mx s)) = trace s @ evs
         \<and> (\<forall>t1 t2. evs = t1 @ t2 \<and> 3 \<le> trailing_failures t1 \<longrightarrow> t2 = [])"
    by (simp add: scrape_toys_category_def Let_def settled_def)
qed

lemma not_found_503:
  "\<not> page_found env_503 \<lparr>page_num = 1, products_scraped = 0, consecutive_failures = 0, self = init\<rparr>"
  by (simp add: page_found_def request_503)

theorem pagination_stops_after_three_failures_witness:
  "3 \<le> trailing_failures (trace (snd (scrape_toys_category env_503 10 5 init)))
   \<and> filter is_get (trace (snd (scrape_toys_category env_503 10 5 init)))
       = [Get (page_url 1), Get (page_url 1), Get (page_url 1),
          Get (page_url 2), Get (page_url 2), Get (page_url 2),
          Get (page_url 3), Get (page_url 3), Get (page_url 3)]
   \<and> \<not> page_found env_503
          \<lparr>page_num = 1, products_scraped = 0, consecutive_failures = 0, self = init\<rparr>
   \<and> consecutive_failures
         (page_body env_503 5
            \<lparr>page_num = 1, products_scraped = 0, consecutive_failures = 0, self = init\<rparr>) = 1"
  using pagination_stops_after_three_failures
          [of env_503 10 5
              "\<lparr>page_num = 1, products_scraped = 0, consecutive_failures = 0, self = init\<rparr>"
              init]
  by (simp add: not_found_503 run_503 trailing_failures_def)

end
